theory Spec2Isabelle
  imports Complex_Main
begin

section \<open>Errors and tensors\<close>

text \<open>
  The notebook \<^verbatim>\<open>Exercise 2.1.ipynb\<close> defines a per-word sequence labelling
  network (\<^verbatim>\<open>SimpleSequenceModel\<close>) and the class \<^verbatim>\<open>SequenceLabeler\<close> with
  its methods \<^verbatim>\<open>train\<close> and \<^verbatim>\<open>predict\<close>.  Tensors are nested lists, a raised
  exception is the \<open>Inl\<close> branch of a sum.  The scalar type \<open>'a\<close> of the
  score tensors only has the operations the code applies to it (zero, one,
  addition, multiplication, division, comparison) and no laws, so nothing
  proved below depends on how floating-point arithmetic rounds.
\<close>

datatype error = IndexError | ValueError | ZeroDivisionError | NameError | KeyError

definition bindE :: "error + 'x \<Rightarrow> ('x \<Rightarrow> error + 'y) \<Rightarrow> error + 'y" where
  "bindE r f = (case r of Inl e \<Rightarrow> Inl e | Inr x \<Rightarrow> f x)"

text \<open>Apply a fallible function to every element, left to right; the first error wins.\<close>

fun traverse :: "('x \<Rightarrow> error + 'y) \<Rightarrow> 'x list \<Rightarrow> error + 'y list" where
  "traverse f [] = Inr []"
| "traverse f (x # xs) =
     bindE (f x) (\<lambda>y. bindE (traverse f xs) (\<lambda>ys. Inr (y # ys)))"

section \<open>SimpleSequenceModel\<close>

text \<open>
  \<^verbatim>\<open>
  class SimpleSequenceModel(nn.Module):
      def __init__(self, word_emb_layer, n_labels):
          self.word_embedding = word_emb_layer
          word_emb_dim = word_emb_layer.weight.shape[1]
          self.top_layer = nn.Linear(word_emb_dim, n_labels)
      def forward(self, words):
          word_repr = self.word_embedding(words)
          return self.top_layer(word_repr)
  \<close>
  The parameters are the embedding table (one row per word id) and the weight
  (one row per label) and bias of the linear output unit.  \<open>training\<close> is the
  mode flag that \<^verbatim>\<open>model.train()\<close> and \<^verbatim>\<open>model.eval()\<close> set.
\<close>

record 'a SimpleSequenceModel =
  word_embedding :: "'a list list"
  top_weight :: "'a list list"
  top_bias :: "'a list"
  training :: bool

text \<open>The parameter tensors of the network, as \<^verbatim>\<open>model.parameters()\<close> lists them.\<close>

definition parameters :: "'a SimpleSequenceModel \<Rightarrow> 'a list list \<times> 'a list list \<times> 'a list" where
  "parameters m = (word_embedding m, top_weight m, top_bias m)"

definition n_labels :: "'a SimpleSequenceModel \<Rightarrow> nat" where
  "n_labels m = length (top_weight m)"

text \<open>The shapes \<^verbatim>\<open>nn.Linear(word_emb_dim, n_labels)\<close> creates: one bias per weight row.\<close>

definition model_shapes :: "'a SimpleSequenceModel \<Rightarrow> bool" where
  "model_shapes m = (length (top_bias m) = length (top_weight m))"

text \<open>\<^verbatim>\<open>nn.Embedding\<close>: the row of the table at the word id; an id outside the table raises.\<close>

definition embedding :: "'a list list \<Rightarrow> nat \<Rightarrow> error + 'a list" where
  "embedding weight w = (if w < length weight then Inr (weight ! w) else Inl IndexError)"

definition dot :: "'a::{zero,plus,times} list \<Rightarrow> 'a list \<Rightarrow> 'a" where
  "dot row x = foldl (+) 0 (map2 (*) x row)"

text \<open>\<^verbatim>\<open>nn.Linear\<close> on one vector: \<open>x W\<^sup>T + b\<close>, one entry per label.\<close>

definition top_layer :: "'a::{zero,plus,times} SimpleSequenceModel \<Rightarrow> 'a list \<Rightarrow> 'a list" where
  "top_layer m x = map2 (\<lambda>row b. dot row x + b) (top_weight m) (top_bias m)"

definition forward ::
  "'a::{zero,plus,times} SimpleSequenceModel \<Rightarrow> nat list list \<Rightarrow> error + 'a list list list" where
  "forward m words =
     bindE (traverse (traverse (embedding (word_embedding m))) words)
       (\<lambda>word_repr. Inr (map (map (top_layer m)) word_repr))"

text \<open>The scores the network gives one word id, and whether a batch stays inside the table.\<close>

definition word_scores :: "'a::{zero,plus,times} SimpleSequenceModel \<Rightarrow> nat \<Rightarrow> 'a list" where
  "word_scores m w = top_layer m (word_embedding m ! w)"

definition ids_in_table :: "'a SimpleSequenceModel \<Rightarrow> nat list list \<Rightarrow> bool" where
  "ids_in_table m words = (\<forall>row\<in>set words. \<forall>w\<in>set row. w < length (word_embedding m))"

text \<open>
  \<^verbatim>\<open>scores.argmax(dim=2)\<close>: the position of the largest score, the first one among
  equals; a dimension of size zero raises.
\<close>

fun argmax_from :: "'a::ord \<Rightarrow> nat \<Rightarrow> nat \<Rightarrow> 'a list \<Rightarrow> nat" where
  "argmax_from best bi i [] = bi"
| "argmax_from best bi i (x # xs) =
     (if best < x then argmax_from x i (Suc i) xs else argmax_from best bi (Suc i) xs)"

definition argmax :: "'a::ord list \<Rightarrow> error + nat" where
  "argmax xs = (case xs of [] \<Rightarrow> Inl IndexError | x # xs' \<Rightarrow> Inr (argmax_from x 0 1 xs'))"

definition argmax_dim2 :: "'a::ord list list list \<Rightarrow> error + nat list list" where
  "argmax_dim2 scores = traverse (traverse argmax) scores"

section \<open>Datasets and loaders\<close>

text \<open>
  One example of a dataset is the encoded words of a sentence, its encoded
  labels and (when characters are in use) its encoded characters; a batch is
  the three padded tensors the batcher builds from a list of examples.
\<close>

type_synonym item = "nat list \<times> nat list \<times> nat list list option"
type_synonym batch = "nat list list \<times> nat list list \<times> nat list list list option"

text \<open>
  Modelled from the spec: \<^verbatim>\<open>ner_util.SequenceDataset\<close> is not in the notebook.
  Example \<open>i\<close> pairs the \<open>i\<close>-th encoded word sequence with the \<open>i\<close>-th label
  sequence and the \<open>i\<close>-th character encoding; there are as many examples as
  word sequences.
\<close>

definition SequenceDataset ::
  "nat list list \<Rightarrow> nat list list \<Rightarrow> nat list list list option \<Rightarrow> error + item list" where
  "SequenceDataset W L C =
     (if length L = length W \<and> (case C of None \<Rightarrow> True | Some c \<Rightarrow> length c = length W)
      then Inr (map (\<lambda>i. (W ! i, L ! i, map_option (\<lambda>c. c ! i) C)) [0..<length W])
      else Inl IndexError)"

text \<open>
  \<^verbatim>\<open>torch.utils.data.DataLoader\<close> cuts the sampling order into consecutive index
  batches of \<open>batch_size\<close> (the last one may be shorter) and refuses a batch
  size of zero.
\<close>

definition batches_of :: "nat \<Rightarrow> 'x list \<Rightarrow> 'x list list" where
  "batches_of n xs = map (\<lambda>k. take n (drop (k * n) xs)) [0..<(length xs + n - 1) div n]"

definition len_loader :: "item list \<Rightarrow> nat \<Rightarrow> nat" where
  "len_loader dataset bs = (length dataset + bs - 1) div bs"

text \<open>\<^verbatim>\<open>DataLoader(dataset, batch_size, shuffle=False, collate_fn=batcher)\<close>, iterated.\<close>

definition sequential_loader ::
  "item list \<Rightarrow> nat \<Rightarrow> (item list \<Rightarrow> batch) \<Rightarrow> error + batch list" where
  "sequential_loader dataset bs collate =
     (if bs = 0 then Inl ValueError else Inr (map collate (batches_of bs dataset)))"

section \<open>SequenceLabeler.predict\<close>

text \<open>
  The attributes of a trained \<^verbatim>\<open>SequenceLabeler\<close> that \<^verbatim>\<open>predict\<close> reads.  The
  vocabularies and the batcher are objects of \<^verbatim>\<open>ner_util\<close>, which the notebook
  imports: their methods are fields here.
\<close>

record 'a SequenceLabeler =
  batch_size :: nat
  word_voc_encode :: "string list list \<Rightarrow> error + nat list list"
  label_voc_encode :: "string list list \<Rightarrow> error + nat list list"
  char_voc_encode :: "string list list \<Rightarrow> error + nat list list list"
  label_voc_itos :: "string list"
  batcher :: "item list \<Rightarrow> batch"
  model :: "'a SimpleSequenceModel"

text \<open>\<^verbatim>\<open>Ydummy = [[self.label_voc.itos[0]]*len(sen) for sen in sentences]\<close>\<close>

definition Ydummy :: "string list \<Rightarrow> string list list \<Rightarrow> error + string list list" where
  "Ydummy itos sentences =
     traverse (\<lambda>sen. case itos of [] \<Rightarrow> Inl IndexError
                      | l # _ \<Rightarrow> Inr (replicate (length sen) l)) sentences"

text \<open>The dataset and the loader \<^verbatim>\<open>predict\<close> builds before it runs the network.\<close>

definition predict_loader :: "'a SequenceLabeler \<Rightarrow> string list list \<Rightarrow> error + batch list" where
  "predict_loader self sentences =
     bindE (Ydummy (label_voc_itos self) sentences) (\<lambda>yd.
     bindE (word_voc_encode self sentences) (\<lambda>W.
     bindE (label_voc_encode self yd) (\<lambda>L.
     bindE (char_voc_encode self sentences) (\<lambda>C.
     bindE (SequenceDataset W L (Some C)) (\<lambda>dataset.
       sequential_loader dataset (batch_size self) (batcher self))))))"

text \<open>\<^verbatim>\<open>self.label_voc.itos[pred_id]\<close>\<close>

definition itos_at :: "string list \<Rightarrow> nat \<Rightarrow> error + string" where
  "itos_at itos i = (if i < length itos then Inr (itos ! i) else Inl IndexError)"

text \<open>
  \<^verbatim>\<open>
  for pred_sen in predicted.cpu().numpy():
      tokens = sentences[len(out)]
      out.append([self.label_voc.itos[pred_id] for _, pred_id in zip(tokens, pred_sen[1:])])
  \<close>
\<close>

fun decode_rows ::
  "string list \<Rightarrow> string list list \<Rightarrow> nat list list \<Rightarrow> string list list \<Rightarrow> error + string list list" where
  "decode_rows itos sentences [] out = Inr out"
| "decode_rows itos sentences (pred_sen # rest) out =
     (if length out < length sentences
      then bindE (traverse (itos_at itos) (map snd (zip (sentences ! length out) (tl pred_sen))))
             (\<lambda>labels. decode_rows itos sentences rest (out @ [labels]))
      else Inl IndexError)"

text \<open>
  \<^verbatim>\<open>
  for Xbatch_words, _, Xbatch_chars in loader:
      scores = self.model(Xbatch_words)
      predicted = scores.argmax(dim=2)
      ...
  \<close>
\<close>

fun predict_loop ::
  "'a::{zero,plus,times,ord} SimpleSequenceModel \<Rightarrow> string list \<Rightarrow> string list list \<Rightarrow>
     batch list \<Rightarrow> string list list \<Rightarrow> error + string list list" where
  "predict_loop m itos sentences [] out = Inr out"
| "predict_loop m itos sentences ((Xbatch_words, Ybatch, Xbatch_chars) # loader) out =
     bindE (forward m Xbatch_words) (\<lambda>scores.
     bindE (argmax_dim2 scores) (\<lambda>predicted.
     bindE (decode_rows itos sentences predicted out) (\<lambda>out'.
       predict_loop m itos sentences loader out')))"

text \<open>
  \<^verbatim>\<open>predict\<close> returns the labeler as the call leaves it together with the
  result: the list \<^verbatim>\<open>out\<close>, or the exception raised.  \<^verbatim>\<open>self.model.eval()\<close>
  runs once the loader exists.
\<close>

definition predict ::
  "'a::{zero,plus,times,ord} SequenceLabeler \<Rightarrow> string list list \<Rightarrow>
     'a SequenceLabeler \<times> (error + string list list)" where
  "predict self sentences =
     (case predict_loader self sentences of
        Inl e \<Rightarrow> (self, Inl e)
      | Inr loader \<Rightarrow>
          (let self' = self\<lparr>model := (model self)\<lparr>training := False\<rparr>\<rparr>
           in (self', predict_loop (model self') (label_voc_itos self') sentences loader [])))"

text \<open>
  The label id the network predicts for one word id, and the tensor of
  predicted ids of a word batch.
\<close>

definition label_id :: "'a::{zero,plus,times,ord} SimpleSequenceModel \<Rightarrow> nat \<Rightarrow> nat" where
  "label_id m w = (case argmax (word_scores m w) of Inl e \<Rightarrow> 0 | Inr k \<Rightarrow> k)"

definition predicted_ids :: "'a::{zero,plus,times,ord} SimpleSequenceModel \<Rightarrow> nat list list \<Rightarrow> nat list list" where
  "predicted_ids m words = map (map (label_id m)) words"

text \<open>
  What \<^verbatim>\<open>predict\<close> needs of the batcher: one row per example, each row at
  least one slot longer than the example's word sequence (the leading pad
  slot that \<^verbatim>\<open>pred_sen[1:]\<close> drops), and rows that stay inside a table that
  holds the examples' ids.
\<close>

definition leading_pad_slot :: "(item list \<Rightarrow> batch) \<Rightarrow> bool" where
  "leading_pad_slot collate =
     (\<forall>its. length (fst (collate its)) = length its \<and>
        (\<forall>i<length its. length (fst (its ! i)) < length (fst (collate its) ! i)))"

definition rows_in_table :: "(item list \<Rightarrow> batch) \<Rightarrow> nat \<Rightarrow> bool" where
  "rows_in_table collate n =
     (\<forall>its. (\<forall>it\<in>set its. \<forall>w\<in>set (fst it). w < n) \<longrightarrow>
        (\<forall>row\<in>set (fst (collate its)). \<forall>w\<in>set row. w < n))"

text \<open>The labels \<^verbatim>\<open>predict\<close> emits for one sentence, read off its row of the batch.\<close>

definition row_labels ::
  "'a::{zero,plus,times,ord} SimpleSequenceModel \<Rightarrow> string list \<Rightarrow> string list \<Rightarrow> nat list \<Rightarrow> string list" where
  "row_labels m itos tokens row = map (\<lambda>w. itos ! label_id m w) (take (length tokens) (tl row))"

section \<open>SequenceLabeler.train\<close>

text \<open>
  What \<^verbatim>\<open>train\<close> calls outside the notebook, as functions of what they read:
  the sampler's random permutation and the dataset's access to one example
  (both draw from the random generators, whose state is \<open>'g\<close>), the loss
  \<^verbatim>\<open>CrossEntropyLoss(ignore_index=pad)\<close> on the flattened scores and labels, the
  parameter update \<^verbatim>\<open>optimizer.zero_grad(); loss.backward(); optimizer.step()\<close>
  (\<open>'o\<close> is the state of the optimizer), and \<^verbatim>\<open>ner_util.evaluate_iob\<close> and
  \<^verbatim>\<open>ner_util.prf\<close> on the statistics \<open>'s\<close> (\<open>prf_total\<close> is
  \<^verbatim>\<open>prf(stats['total'])\<close>, \<open>new_stats\<close> is \<^verbatim>\<open>defaultdict(Counter)\<close>).
\<close>

record ('a, 'g, 'o, 's) library =
  randperm :: "'g \<Rightarrow> nat \<Rightarrow> nat list \<times> 'g"
  getitem_train :: "'g \<Rightarrow> item \<Rightarrow> item \<times> 'g"
  loss_func :: "'a list list \<Rightarrow> nat list \<Rightarrow> error + 'a"
  optimizer_step ::
    "'o \<Rightarrow> 'a SimpleSequenceModel \<Rightarrow> nat list list \<Rightarrow> nat list list \<Rightarrow> 'a SimpleSequenceModel \<times> 'o"
  evaluate_iob :: "nat list list \<Rightarrow> nat list list \<Rightarrow> nat list list \<Rightarrow> 's \<Rightarrow> 's"
  prf_total :: "'s \<Rightarrow> 'a \<times> 'a \<times> 'a"
  new_stats :: 's

text \<open>
  The trace of a run: one entry per optimizer update (with the word batch it
  was computed from), one per call of \<^verbatim>\<open>evaluate_iob\<close> (with the word batch and
  the predicted ids), one per printed epoch line (epoch number, training loss,
  validation F1).
\<close>

datatype 'a event =
    OptimizerStep "nat list list"
  | Evaluated "nat list list" "nat list list"
  | Printed nat 'a 'a

datatype kind = Step | Eval | Report

fun kind_of :: "'a event \<Rightarrow> kind" where
  "kind_of (OptimizerStep X) = Step"
| "kind_of (Evaluated X P) = Eval"
| "kind_of (Printed i l f) = Report"

fun evaluated_words :: "'a event \<Rightarrow> nat list list list" where
  "evaluated_words (Evaluated X P) = [X]"
| "evaluated_words e = []"

record ('a, 'g, 'o, 's) run =
  run_model :: "'a SimpleSequenceModel"
  optimizer :: 'o
  rng :: 'g
  history_train_loss :: "'a list"
  history_val_f1 :: "'a list"
  stats :: "'s option"
  trace :: "'a event list"

text \<open>Reading the examples of the index batches of a shuffling loader, one after another.\<close>

fun fetch_items ::
  "('g \<Rightarrow> item \<Rightarrow> item \<times> 'g) \<Rightarrow> 'g \<Rightarrow> item list \<Rightarrow> nat list \<Rightarrow> error + item list \<times> 'g" where
  "fetch_items getitem g dataset [] = Inr ([], g)"
| "fetch_items getitem g dataset (i # idxs) =
     (if i < length dataset
      then (case getitem g (dataset ! i) of (it, g1) \<Rightarrow>
              bindE (fetch_items getitem g1 dataset idxs) (\<lambda>(its, g2). Inr (it # its, g2)))
      else Inl IndexError)"

fun shuffled_batches ::
  "('g \<Rightarrow> item \<Rightarrow> item \<times> 'g) \<Rightarrow> (item list \<Rightarrow> batch) \<Rightarrow> item list \<Rightarrow> 'g \<Rightarrow> nat list list \<Rightarrow>
     error + batch list \<times> 'g" where
  "shuffled_batches getitem collate dataset g [] = Inr ([], g)"
| "shuffled_batches getitem collate dataset g (idxs # rest) =
     bindE (fetch_items getitem g dataset idxs) (\<lambda>(its, g1).
     bindE (shuffled_batches getitem collate dataset g1 rest) (\<lambda>(bs, g2).
       Inr (collate its # bs, g2)))"

text \<open>
  Building \<^verbatim>\<open>DataLoader(train_dataset, batch_size, shuffle=True, ...)\<close>: a batch
  size of zero is refused, and so is an empty dataset, which the random
  sampler of a shuffling loader does not accept.
\<close>

definition random_loader :: "item list \<Rightarrow> nat \<Rightarrow> error + unit" where
  "random_loader dataset bs = (if bs = 0 \<or> dataset = [] then Inl ValueError else Inr ())"

text \<open>
  One iteration over the shuffling loader: the sampler draws a permutation of
  the dataset's indices, the indices are cut into batches, the examples of a
  batch are read from the dataset in that order and collated.
\<close>

definition shuffled_loader ::
  "('a, 'g, 'o, 's) library \<Rightarrow> item list \<Rightarrow> nat \<Rightarrow> (item list \<Rightarrow> batch) \<Rightarrow> 'g \<Rightarrow>
     error + batch list \<times> 'g" where
  "shuffled_loader lib dataset bs collate g =
     bindE (random_loader dataset bs) (\<lambda>built.
       case randperm lib g (length dataset) of (perm, g1) \<Rightarrow>
         shuffled_batches (getitem_train lib) collate dataset g1 (batches_of bs perm))"

text \<open>
  \<^verbatim>\<open>
  for Xbatch_words, Ybatch, Xbatch_chars in train_loader:
      scores = self.model(Xbatch_words)
      loss = loss_func(scores.view(-1, len(self.label_voc)), Ybatch.view(-1))
      optimizer.zero_grad()
      loss.backward()
      optimizer.step()
      loss_sum += loss.item()
  \<close>
\<close>

fun train_batches ::
  "('a::{zero,plus,times}, 'g, 'o, 's) library \<Rightarrow>
     'a SimpleSequenceModel \<times> 'o \<times> 'a \<times> 'a event list \<Rightarrow> batch list \<Rightarrow>
     error + 'a SimpleSequenceModel \<times> 'o \<times> 'a \<times> 'a event list" where
  "train_batches lib st [] = Inr st"
| "train_batches lib (m, opt, loss_sum, lg) ((Xbatch_words, Ybatch, Xbatch_chars) # train_loader) =
     bindE (forward m Xbatch_words) (\<lambda>scores.
     bindE (loss_func lib (concat scores) (concat Ybatch)) (\<lambda>loss.
       case optimizer_step lib opt m Xbatch_words Ybatch of (m', opt') \<Rightarrow>
         train_batches lib (m', opt', loss_sum + loss, lg @ [OptimizerStep Xbatch_words])
           train_loader))"

text \<open>
  \<^verbatim>\<open>
  for Xbatch_words, Ybatch, Xbatch_chars in val_loader:
      scores = self.model(Xbatch_words)
      predicted = scores.argmax(dim=2)
      ner_util.evaluate_iob(Xbatch_words, predicted, Ybatch, self.label_voc, stats)
  \<close>
\<close>

fun validation_batches ::
  "('a::{zero,plus,times,ord}, 'g, 'o, 's) library \<Rightarrow> 'a SimpleSequenceModel \<Rightarrow>
     's \<times> 'a event list \<Rightarrow> batch list \<Rightarrow> error + 's \<times> 'a event list" where
  "validation_batches lib m st [] = Inr st"
| "validation_batches lib m (sts, lg) ((Xbatch_words, Ybatch, Xbatch_chars) # val_loader) =
     bindE (forward m Xbatch_words) (\<lambda>scores.
     bindE (argmax_dim2 scores) (\<lambda>predicted.
       validation_batches lib m
         (evaluate_iob lib Xbatch_words predicted Ybatch sts,
          lg @ [Evaluated Xbatch_words predicted])
         val_loader))"

text \<open>
  The validation phase of one epoch: \<^verbatim>\<open>stats = defaultdict(Counter)\<close>,
  \<^verbatim>\<open>self.model.eval()\<close>, then the loop over \<^verbatim>\<open>val_loader\<close> under
  \<^verbatim>\<open>torch.no_grad()\<close>.  It returns the network as the phase leaves it and the
  statistics and trace, or the exception raised.
\<close>

definition validation_pass ::
  "('a::{zero,plus,times,ord}, 'g, 'o, 's) library \<Rightarrow> 'a SimpleSequenceModel \<Rightarrow> batch list \<Rightarrow>
     'a SimpleSequenceModel \<times> (error + 's \<times> 'a event list)" where
  "validation_pass lib m val_loader =
     (let m' = m\<lparr>training := False\<rparr>
      in (m', validation_batches lib m' (new_stats lib, []) val_loader))"

primrec scalar_of_nat :: "nat \<Rightarrow> 'a::{zero,one,plus}" where
  "scalar_of_nat 0 = 0"
| "scalar_of_nat (Suc n) = scalar_of_nat n + 1"

text \<open>
  One pass of the body of \<^verbatim>\<open>for i in range(p.n_epochs)\<close>: the training
  batches in the sampler's order, the mean loss, the validation phase, the
  printed line.  The division \<^verbatim>\<open>loss_sum / len(train_loader)\<close> raises when
  the loader has no batch.
\<close>

definition train_epoch ::
  "('a::{zero,one,plus,times,inverse,ord}, 'g, 'o, 's) library \<Rightarrow> nat \<Rightarrow> (item list \<Rightarrow> batch) \<Rightarrow>
     item list \<Rightarrow> batch list \<Rightarrow> nat \<Rightarrow> ('a, 'g, 'o, 's) run \<Rightarrow> error + ('a, 'g, 'o, 's) run" where
  "train_epoch lib bs collate train_dataset val_loader i st =
     bindE (shuffled_loader lib train_dataset bs collate (rng st)) (\<lambda>(train_loader, g).
     bindE (train_batches lib ((run_model st)\<lparr>training := True\<rparr>, optimizer st, 0, []) train_loader)
       (\<lambda>(m1, opt1, loss_sum, log1).
     if len_loader train_dataset bs = 0 then Inl ZeroDivisionError
     else
       (let train_loss = loss_sum / scalar_of_nat (len_loader train_dataset bs)
        in case validation_pass lib m1 val_loader of (m2, r) \<Rightarrow>
          bindE r (\<lambda>(sts, log2).
            case prf_total lib sts of (precision, recall, val_f1) \<Rightarrow>
              Inr (st\<lparr>run_model := m2, optimizer := opt1, rng := g,
                      history_train_loss := history_train_loss st @ [train_loss],
                      history_val_f1 := history_val_f1 st @ [val_f1],
                      stats := Some sts,
                      trace := trace st @ log1 @ log2 @ [Printed (i + 1) train_loss val_f1]\<rparr>)))))"

fun train_epochs ::
  "('a::{zero,one,plus,times,inverse,ord}, 'g, 'o, 's) library \<Rightarrow> nat \<Rightarrow> (item list \<Rightarrow> batch) \<Rightarrow>
     item list \<Rightarrow> batch list \<Rightarrow> nat \<Rightarrow> nat \<Rightarrow> ('a, 'g, 'o, 's) run \<Rightarrow> error + ('a, 'g, 'o, 's) run" where
  "train_epochs lib bs collate train_dataset val_loader 0 i st = Inr st"
| "train_epochs lib bs collate train_dataset val_loader (Suc k) i st =
     bindE (train_epoch lib bs collate train_dataset val_loader i st)
       (train_epochs lib bs collate train_dataset val_loader k (Suc i))"

text \<open>
  \<^verbatim>\<open>train\<close> from the point where the datasets, the network \<open>m0\<close>, the
  optimizer \<open>opt0\<close> and the seeded generators \<open>g0\<close> exist: the training
  loader and the validation loader are built (in this order),
  \<^verbatim>\<open>history = defaultdict(list)\<close>, the epoch loop, and the final report, which
  reads \<^verbatim>\<open>stats\<close> and so raises when no epoch has run.
\<close>

definition train ::
  "('a::{zero,one,plus,times,inverse,ord}, 'g, 'o, 's) library \<Rightarrow> nat \<Rightarrow> nat \<Rightarrow> (item list \<Rightarrow> batch) \<Rightarrow>
     item list \<Rightarrow> item list \<Rightarrow> 'a SimpleSequenceModel \<Rightarrow> 'o \<Rightarrow> 'g \<Rightarrow> error + ('a, 'g, 'o, 's) run" where
  "train lib n_epochs bs collate train_dataset val_dataset m0 opt0 g0 =
     bindE (random_loader train_dataset bs) (\<lambda>built.
     bindE (sequential_loader val_dataset bs collate) (\<lambda>val_loader.
     bindE (train_epochs lib bs collate train_dataset val_loader n_epochs 0
              \<lparr>run_model = m0, optimizer = opt0, rng = g0, history_train_loss = [],
               history_val_f1 = [], stats = None, trace = []\<rparr>) (\<lambda>st.
       case stats st of None \<Rightarrow> Inl NameError | Some sts \<Rightarrow> Inr st)))"

text \<open>The training loss and validation F1 an epoch line reports.\<close>

fun reported :: "'a event \<Rightarrow> ('a \<times> 'a) list" where
  "reported (Printed i l f) = [(l, f)]"
| "reported e = []"

text \<open>The trace of the validation phase over a loader, and the statistics it accumulates.\<close>

definition validation_events ::
  "'a::{zero,plus,times,ord} SimpleSequenceModel \<Rightarrow> batch list \<Rightarrow> 'a event list" where
  "validation_events m val_loader =
     map (\<lambda>b. Evaluated (fst b) (predicted_ids m (fst b))) val_loader"

definition validation_stats ::
  "('a::{zero,plus,times,ord}, 'g, 'o, 's) library \<Rightarrow> 'a SimpleSequenceModel \<Rightarrow> batch list \<Rightarrow> 's" where
  "validation_stats lib m val_loader =
     fold (\<lambda>b. evaluate_iob lib (fst b) (predicted_ids m (fst b)) (fst (snd b))) val_loader
       (new_stats lib)"




section \<open>The BIO chunk evaluator of ner_util\<close>

text \<open>
  A BIO label is \<^verbatim>\<open>O\<close>, \<^verbatim>\<open>B-TYPE\<close> or \<^verbatim>\<open>I-TYPE\<close>; a chunk is a span
  \<open>[start, end)\<close> of token positions with an entity type.
\<close>

datatype bio = Outside | Begin string | Inside string

type_synonym chunk = "nat \<times> nat \<times> string"

definition chunk_type :: "chunk \<Rightarrow> string" where
  "chunk_type c = snd (snd c)"

definition close_chunk :: "(nat \<times> string) option \<Rightarrow> nat \<Rightarrow> chunk list" where
  "close_chunk cur i = (case cur of None \<Rightarrow> [] | Some (s, t) \<Rightarrow> [(s, i, t)])"

definition continues :: "(nat \<times> string) option \<Rightarrow> string \<Rightarrow> bool" where
  "continues cur t = (case cur of None \<Rightarrow> False | Some (s, t') \<Rightarrow> t' = t)"

text \<open>
  Modelled from the spec: the chunk extraction of \<^verbatim>\<open>ner_util.evaluate_iob\<close> is
  not in the notebook.  The labels are scanned from left to right; a chunk
  begins at a \<^verbatim>\<open>B-TYPE\<close> label, or at an \<^verbatim>\<open>I-TYPE\<close> label whose predecessor is
  not a \<^verbatim>\<open>B\<close> or \<^verbatim>\<open>I\<close> of the same type, and ends immediately before the next
  position that does not continue it.  \<open>i\<close> is the position of the next
  label, \<open>cur\<close> the start and type of the chunk that is open there.
\<close>

fun extract_chunks :: "nat \<Rightarrow> (nat \<times> string) option \<Rightarrow> bio list \<Rightarrow> chunk list" where
  "extract_chunks i cur [] = close_chunk cur i"
| "extract_chunks i cur (Outside # ls) = close_chunk cur i @ extract_chunks (Suc i) None ls"
| "extract_chunks i cur (Begin t # ls) = close_chunk cur i @ extract_chunks (Suc i) (Some (i, t)) ls"
| "extract_chunks i cur (Inside t # ls) =
     (if continues cur t then extract_chunks (Suc i) cur ls
      else close_chunk cur i @ extract_chunks (Suc i) (Some (i, t)) ls)"

definition chunks :: "bio list \<Rightarrow> chunk list" where
  "chunks labels = extract_chunks 0 None labels"

text \<open>
  Modelled from the spec: the re-serialization of chunks to per-token labels,
  which the spec names and the notebook does not hold.  Positions \<open>i..<n\<close>
  are written: \<^verbatim>\<open>B-TYPE\<close> at the start of a chunk, \<^verbatim>\<open>I-TYPE\<close> on the rest of
  its span, \<^verbatim>\<open>O\<close> outside every chunk.
\<close>

fun serialize :: "nat \<Rightarrow> nat \<Rightarrow> chunk list \<Rightarrow> bio list" where
  "serialize i n [] = replicate (n - i) Outside"
| "serialize i n ((s, e, t) # cs) =
     replicate (s - i) Outside @ Begin t # replicate (e - Suc s) (Inside t) @ serialize e n cs"

definition to_labels :: "nat \<Rightarrow> chunk list \<Rightarrow> bio list" where
  "to_labels n cs = serialize 0 n cs"

text \<open>
  A label sequence in which every \<^verbatim>\<open>I-TYPE\<close> follows a \<^verbatim>\<open>B\<close> or \<^verbatim>\<open>I\<close> of the
  same type; \<open>prev\<close> is the type of the chunk the preceding label belongs to.
\<close>

fun inside_follows :: "string option \<Rightarrow> bio list \<Rightarrow> bool" where
  "inside_follows prev [] = True"
| "inside_follows prev (Outside # ls) = inside_follows None ls"
| "inside_follows prev (Begin t # ls) = inside_follows (Some t) ls"
| "inside_follows prev (Inside t # ls) = (prev = Some t \<and> inside_follows (Some t) ls)"

text \<open>
  During the scan at position \<open>i\<close> with the chunk \<open>cur\<close> open: the first
  position no finished chunk covers, and the labels of the open chunk so far.
\<close>

definition chunk_floor :: "nat \<Rightarrow> (nat \<times> string) option \<Rightarrow> nat" where
  "chunk_floor i cur = (case cur of None \<Rightarrow> i | Some (s, t) \<Rightarrow> s)"

definition open_labels :: "nat \<Rightarrow> (nat \<times> string) option \<Rightarrow> bio list" where
  "open_labels i cur =
     (case cur of None \<Rightarrow> [] | Some (s, t) \<Rightarrow> Begin t # replicate (i - Suc s) (Inside t))"

text \<open>
  The evaluation statistics: per entity type, and under the key \<^verbatim>\<open>total\<close>,
  the counts of true positives, false positives and false negatives.  A key
  never written holds zeros, as \<^verbatim>\<open>defaultdict(Counter)\<close> does.
\<close>

record counts =
  tp :: nat
  fp :: nat
  fn :: nat

type_synonym statistics = "string \<Rightarrow> counts"

definition no_counts :: statistics where
  "no_counts = (\<lambda>k. \<lparr>tp = 0, fp = 0, fn = 0\<rparr>)"

definition add_tp :: "string \<Rightarrow> statistics \<Rightarrow> statistics" where
  "add_tp k st = st(k := (st k)\<lparr>tp := Suc (tp (st k))\<rparr>)"

definition add_fp :: "string \<Rightarrow> statistics \<Rightarrow> statistics" where
  "add_fp k st = st(k := (st k)\<lparr>fp := Suc (fp (st k))\<rparr>)"

definition add_fn :: "string \<Rightarrow> statistics \<Rightarrow> statistics" where
  "add_fn k st = st(k := (st k)\<lparr>fn := Suc (fn (st k))\<rparr>)"

text \<open>
  Modelled from the spec: the counting of \<^verbatim>\<open>ner_util.evaluate_iob\<close> for one
  sentence is not in the notebook.  A predicted chunk that is also a gold
  chunk (same span, same type) is a true positive, any other predicted chunk a
  false positive, a gold chunk that was not predicted a false negative; each
  is counted for its type and for \<^verbatim>\<open>total\<close>.
\<close>

fun count_predicted :: "chunk list \<Rightarrow> chunk list \<Rightarrow> statistics \<Rightarrow> statistics" where
  "count_predicted gold [] st = st"
| "count_predicted gold (c # cs) st =
     count_predicted gold cs
       (if c \<in> set gold then add_tp ''total'' (add_tp (chunk_type c) st)
        else add_fp ''total'' (add_fp (chunk_type c) st))"

fun count_missed :: "chunk list \<Rightarrow> chunk list \<Rightarrow> statistics \<Rightarrow> statistics" where
  "count_missed predicted [] st = st"
| "count_missed predicted (c # cs) st =
     count_missed predicted cs
       (if c \<in> set predicted then st else add_fn ''total'' (add_fn (chunk_type c) st))"

definition evaluate_bio :: "bio list \<Rightarrow> bio list \<Rightarrow> statistics \<Rightarrow> statistics" where
  "evaluate_bio predicted gold st =
     count_missed (chunks predicted) (chunks gold)
       (count_predicted (chunks gold) (chunks predicted) st)"

text \<open>
  Modelled from the spec: \<^verbatim>\<open>ner_util.prf\<close> is not in the notebook.  Precision is
  \<open>TP / (TP + FP)\<close>, recall \<open>TP / (TP + FN)\<close>, F1 their harmonic mean, each
  0 when its denominator is 0.  \<open>py_div\<close> is Python's division, which raises
  on a zero divisor.
\<close>

definition py_div :: "real \<Rightarrow> real \<Rightarrow> error + real" where
  "py_div a b = (if b = 0 then Inl ZeroDivisionError else Inr (a / b))"

definition ner_prf :: "counts \<Rightarrow> error + real \<times> real \<times> real" where
  "ner_prf c =
     bindE (if tp c + fp c = 0 then Inr 0 else py_div (real (tp c)) (real (tp c + fp c))) (\<lambda>p.
     bindE (if tp c + fn c = 0 then Inr 0 else py_div (real (tp c)) (real (tp c + fn c))) (\<lambda>r.
     bindE (if p + r = 0 then Inr 0 else py_div (2 * p * r) (p + r)) (\<lambda>f1.
       Inr (p, r, f1))))"

section \<open>Vocabulary and batcher of ner_util, for worked examples\<close>

fun index_of :: "'x list \<Rightarrow> 'x \<Rightarrow> nat option" where
  "index_of [] x = None"
| "index_of (y # ys) x = (if x = y then Some 0 else map_option Suc (index_of ys x))"

text \<open>
  Modelled from the spec: \<^verbatim>\<open>ner_util.Vocabulary.encode\<close> is not in the notebook.
  Every token becomes its id in the vocabulary; a token that is not in the
  vocabulary becomes the unknown id when the vocabulary has one and is an
  error otherwise.
\<close>

definition encode_token :: "string list \<Rightarrow> nat option \<Rightarrow> string \<Rightarrow> error + nat" where
  "encode_token itos unknown tok =
     (case index_of itos tok of
        Some i \<Rightarrow> Inr i
      | None \<Rightarrow> (case unknown of Some u \<Rightarrow> Inr u | None \<Rightarrow> Inl KeyError))"

definition encode :: "string list \<Rightarrow> nat option \<Rightarrow> string list list \<Rightarrow> error + nat list list" where
  "encode itos unknown seqs = traverse (traverse (encode_token itos unknown)) seqs"

definition encode_characters ::
  "string list \<Rightarrow> nat option \<Rightarrow> string list list \<Rightarrow> error + nat list list list" where
  "encode_characters itos unknown seqs =
     traverse (traverse (\<lambda>word. traverse (\<lambda>c. encode_token itos unknown [c]) word)) seqs"

text \<open>
  Modelled from the spec: \<^verbatim>\<open>ner_util.SequenceBatcher\<close> is not in the notebook.
  The word and label sequences of a batch are right-padded with the pad id 0
  to the longest word sequence of the batch, behind \<open>lead\<close> leading pad
  slots (the spec's shape is \<^verbatim>\<open>max_sentence_length [+1 for a leading pad slot]\<close>);
  the character sequences are padded alike, every word to the longest word.
\<close>

definition pad_row :: "nat \<Rightarrow> nat \<Rightarrow> nat list \<Rightarrow> nat list" where
  "pad_row lead width row = replicate lead 0 @ row @ replicate (width - length row) 0"

definition pad_characters :: "nat \<Rightarrow> nat \<Rightarrow> nat \<Rightarrow> nat list list \<Rightarrow> nat list list" where
  "pad_characters lead width wlen cs =
     replicate lead (replicate wlen 0) @ map (\<lambda>w. w @ replicate (wlen - length w) 0) cs @
     replicate (width - length cs) (replicate wlen 0)"

definition SequenceBatcher :: "nat \<Rightarrow> item list \<Rightarrow> batch" where
  "SequenceBatcher lead its =
     (let width = fold max (map (\<lambda>it. length (fst it)) its) 0;
          wlen = fold max (concat (map (\<lambda>it. case snd (snd it) of None \<Rightarrow> []
                                         | Some cs \<Rightarrow> map length cs) its)) 0
      in (map (\<lambda>it. pad_row lead width (fst it)) its,
          map (\<lambda>it. pad_row lead width (fst (snd it))) its,
          if list_all (\<lambda>it. snd (snd it) \<noteq> None) its
          then Some (map (\<lambda>it. pad_characters lead width wlen (the (snd (snd it)))) its)
          else None))"

text \<open>A small trained labeler: four words, three labels, two embedding dimensions.\<close>

definition example_model :: "int SimpleSequenceModel" where
  "example_model =
     \<lparr>word_embedding = [[0, 0], [1, 0], [0, 2], [1, 1]],
      top_weight = [[0, 0], [1, 0], [0, 1]],
      top_bias = [0, 1, 0],
      training = True\<rparr>"

definition example_labeler :: "nat \<Rightarrow> int SequenceLabeler" where
  "example_labeler lead =
     \<lparr>batch_size = 2,
      word_voc_encode = encode [''<pad>'', ''<unk>'', ''Jane'', ''lives''] (Some 1),
      label_voc_encode = encode [''<pad>'', ''O'', ''B-PER''] None,
      char_voc_encode = encode_characters [''<pad>'', ''<unk>'', ''a'', ''e''] (Some 1),
      label_voc_itos = [''<pad>'', ''O'', ''B-PER''],
      batcher = SequenceBatcher lead,
      model = example_model\<rparr>"

definition example_sentences :: "string list list" where
  "example_sentences = [[''Jane'', ''lives''], [''Tarakanov''], [''lives'']]"

text \<open>Two loaders with the same word tensors and different label and character tensors.\<close>

definition example_loader :: "batch list" where
  "example_loader =
     [([[0, 2, 3], [0, 1, 0]], [[0, 0, 0], [0, 0, 0]],
       Some [[[0, 0], [1, 2], [3, 3]], [[0, 0], [1, 0], [0, 0]]])]"

definition example_loader_relabelled :: "batch list" where
  "example_loader_relabelled = [([[0, 2, 3], [0, 1, 0]], [[1, 2, 1], [2, 2, 2]], None)]"

text \<open>
  A small training run: the sampler reverses the dataset order, every batch
  has loss 1, the optimizer adds 1 to every bias and counts its updates, the
  statistics count the evaluated sentences.
\<close>

definition example_library :: "(real, nat, nat, nat) library" where
  "example_library =
     \<lparr>randperm = (\<lambda>g n. (rev [0..<n], Suc g)),
      getitem_train = (\<lambda>g it. (it, g)),
      loss_func = (\<lambda>scores labels. Inr 1),
      optimizer_step = (\<lambda>opt m X Y. (m\<lparr>top_bias := map (\<lambda>b. b + 1) (top_bias m)\<rparr>, Suc opt)),
      evaluate_iob = (\<lambda>X P Y sts. sts + length X),
      prf_total = (\<lambda>sts. (0, 0, 1)),
      new_stats = 0\<rparr>"

definition example_network :: "real SimpleSequenceModel" where
  "example_network =
     \<lparr>word_embedding = [[0, 0], [1, 0], [0, 2], [1, 1]],
      top_weight = [[0, 0], [1, 0], [0, 1]],
      top_bias = [0, 1, 0],
      training = False\<rparr>"


definition example_val_dataset :: "item list" where
  "example_val_dataset = [([2], [2], None), ([3, 3], [1, 1], None)]"

section \<open>Properties of the network\<close>

lemma bindE_Inr: "bindE r f = Inr y \<longleftrightarrow> (\<exists>x. r = Inr x \<and> f x = Inr y)"
  by (cases r) (simp_all add: bindE_def)

lemma bindE_simps [simp]: "bindE (Inr x) f = f x" "bindE (Inl e) f = Inl e"
  by (simp_all add: bindE_def)

lemma traverse_map:
  "(\<And>x. x \<in> set xs \<Longrightarrow> f x = Inr (g x)) \<Longrightarrow> traverse f xs = Inr (map g xs)"
  by (induction xs) simp_all

lemma traverse_Inr_iff:
  "traverse f xs = Inr ys \<longleftrightarrow> length ys = length xs \<and> (\<forall>i<length xs. f (xs ! i) = Inr (ys ! i))"
proof (induction xs arbitrary: ys)
  case Nil
  then show ?case by auto
next
  case (Cons x xs)
  show ?case
  proof (cases ys)
    case Nil
    then show ?thesis by (auto simp: bindE_Inr)
  next
    case (Cons y ys')
    then show ?thesis
      by (auto simp: bindE_Inr Cons.IH less_Suc_eq_0_disj)
  qed
qed

lemma length_top_layer: "model_shapes m \<Longrightarrow> length (top_layer m x) = n_labels m"
  by (simp add: top_layer_def model_shapes_def n_labels_def)

lemma length_word_scores: "model_shapes m \<Longrightarrow> length (word_scores m w) = n_labels m"
  by (simp add: word_scores_def length_top_layer)

lemma forward_in_table:
  assumes "ids_in_table m words"
  shows "forward m words = Inr (map (map (word_scores m)) words)"
proof -
  have row: "traverse (embedding (word_embedding m)) row = Inr (map (\<lambda>w. word_embedding m ! w) row)"
    if "row \<in> set words" for row
    using that assms by (rule_tac traverse_map) (auto simp: embedding_def ids_in_table_def)
  have "traverse (traverse (embedding (word_embedding m))) words
          = Inr (map (map (\<lambda>w. word_embedding m ! w)) words)"
    by (rule traverse_map) (rule row)
  then show ?thesis
    by (simp add: forward_def word_scores_def comp_def)
qed

text \<open>
  Claim C6.  For a batch of word ids that all lie in the embedding table,
  \<open>forward\<close> returns a score tensor with one row per sentence, one entry per
  word position and \<open>n_labels\<close> scores per entry, and the scores at position
  \<open>(i, j)\<close> are \<open>word_scores m\<close> of the single id \<open>words ! i ! j\<close>: a second
  batch \<open>words'\<close> that holds the same id at \<open>(i, j)\<close> gets the same scores
  there, whatever its other ids are.
\<close>

theorem forward_per_word:
  assumes "model_shapes m" and "ids_in_table m words" and "ids_in_table m words'"
  shows "\<exists>scores scores'. forward m words = Inr scores \<and> forward m words' = Inr scores' \<and>
           length scores = length words \<and>
           (\<forall>i<length words. length (scores ! i) = length (words ! i) \<and>
              (\<forall>j<length (words ! i).
                  length (scores ! i ! j) = n_labels m \<and>
                  scores ! i ! j = word_scores m (words ! i ! j) \<and>
                  (i < length words' \<and> j < length (words' ! i) \<and> words' ! i ! j = words ! i ! j
                     \<longrightarrow> scores' ! i ! j = scores ! i ! j)))"
  by (simp add: forward_in_table [OF assms(2)] forward_in_table [OF assms(3)]
        length_word_scores [OF assms(1)])

theorem forward_per_word_witness:
  "model_shapes example_model \<and>
   ids_in_table example_model [[2, 3], [1, 0]] \<and>
   ids_in_table example_model [[0, 3], [1, 2]] \<and>
   (\<exists>scores scores'.
      forward example_model [[2, 3], [1, 0]] = Inr scores \<and>
      forward example_model [[0, 3], [1, 2]] = Inr scores' \<and>
      length scores = 2 \<and> length (scores ! 0) = 2 \<and> length (scores ! 0 ! 1) = 3 \<and>
      scores ! 0 ! 1 = word_scores example_model 3 \<and>
      scores' ! 0 ! 1 = scores ! 0 ! 1)"
proof -
  define w :: "nat list list" where "w = [[2, 3], [1, 0]]"
  define w' :: "nat list list" where "w' = [[0, 3], [1, 2]]"
  have h: "model_shapes example_model" "ids_in_table example_model w"
    "ids_in_table example_model w'"
    by (simp_all add: model_shapes_def ids_in_table_def example_model_def w_def w'_def)
  from forward_per_word [OF h] obtain scores scores'
    where fw: "forward example_model w = Inr scores" "forward example_model w' = Inr scores'"
      and len: "length scores = length w"
      and at: "\<And>i j. i < length w \<Longrightarrow> j < length (w ! i) \<Longrightarrow>
                 length (scores ! i) = length (w ! i) \<and>
                  length (scores ! i ! j) = n_labels example_model \<and>
                  scores ! i ! j = word_scores example_model (w ! i ! j) \<and>
                  (i < length w' \<and> j < length (w' ! i) \<and> w' ! i ! j = w ! i ! j
                     \<longrightarrow> scores' ! i ! j = scores ! i ! j)"
    by blast
  have "length (scores ! 0) = 2 \<and> length (scores ! 0 ! 1) = n_labels example_model \<and>
      scores ! 0 ! 1 = word_scores example_model 3 \<and> scores' ! 0 ! 1 = scores ! 0 ! 1"
    using at [of 0 1] by (simp add: w_def w'_def length_word_scores [OF h(1)])
  moreover have "n_labels example_model = 3"
    by (simp add: n_labels_def example_model_def)
  moreover have "length scores = 2"
    using len by (simp add: w_def)
  ultimately show ?thesis
    using h fw unfolding w_def w'_def by (simp add: length_word_scores)
qed

lemma argmax_from_less: "bi < i \<Longrightarrow> argmax_from best bi i xs < i + length xs"
proof (induction xs arbitrary: best bi i)
  case Nil
  then show ?case by simp
next
  case (Cons x xs)
  have "argmax_from x i (Suc i) xs < Suc i + length xs"
    by (rule Cons.IH) simp
  moreover have "argmax_from best bi (Suc i) xs < Suc i + length xs"
    by (rule Cons.IH) (use Cons.prems in simp)
  ultimately show ?case by simp
qed

lemma argmax_nonempty: "xs \<noteq> [] \<Longrightarrow> \<exists>k<length xs. argmax xs = Inr k"
  using argmax_from_less [of 0 1 _ "tl xs"] by (cases xs) (auto simp: argmax_def)

lemma label_id_argmax:
  assumes "model_shapes m" and "0 < n_labels m"
  shows "argmax (word_scores m w) = Inr (label_id m w)" and "label_id m w < n_labels m"
proof -
  have "word_scores m w \<noteq> []"
    using assms length_word_scores [of m w] by auto
  from argmax_nonempty [OF this] obtain k
    where "k < length (word_scores m w)" "argmax (word_scores m w) = Inr k" by blast
  then show "argmax (word_scores m w) = Inr (label_id m w)" "label_id m w < n_labels m"
    using assms(1) by (simp_all add: label_id_def length_word_scores)
qed

lemma predicted_in_table:
  assumes "model_shapes m" and "0 < n_labels m" and "ids_in_table m words"
  shows "bindE (forward m words) argmax_dim2 = Inr (predicted_ids m words)"
proof -
  have "traverse argmax (map (word_scores m) row) = Inr (map (label_id m) row)" for row
    by (induction row) (simp_all add: label_id_argmax [OF assms(1,2)])
  then have "traverse (traverse argmax) (map (map (word_scores m)) ws)
               = Inr (map (map (label_id m)) ws)" for ws
    by (induction ws) simp_all
  then show ?thesis
    by (simp add: forward_in_table [OF assms(3)] argmax_dim2_def predicted_ids_def)
qed

section \<open>Properties of the loaders and of predict\<close>

lemma concat_batches_take:
  "concat (map (\<lambda>k. take n (drop (k * n) xs)) [0..<m]) = take (m * n) xs"
proof (induction m)
  case 0
  then show ?case by simp
next
  case (Suc m)
  have "take (m * n + n) xs = take (m * n) xs @ take n (drop (m * n) xs)"
    by (rule take_add)
  with Suc show ?case by (simp add: add.commute)
qed

lemma batches_cover: "0 < n \<Longrightarrow> k \<le> (k + n - 1) div n * n" for n k :: nat
proof -
  assume n: "0 < n"
  have "(k + n - 1) div n * n + (k + n - 1) mod n = k + n - 1"
    by simp
  moreover have "(k + n - 1) mod n < n"
    using n by simp
  ultimately show ?thesis by linarith
qed

lemma concat_batches_of: "0 < n \<Longrightarrow> concat (batches_of n xs) = xs"
  using batches_cover [of n "length xs"] by (simp add: batches_of_def concat_batches_take)


lemma list_all2_concat:
  "list_all2 (list_all2 P) xss yss \<Longrightarrow> list_all2 P (concat xss) (concat yss)"
  by (induction xss yss rule: list_all2_induct) (simp_all add: list_all2_appendI)

lemma length_row_labels:
  "length tokens < length row \<Longrightarrow> length (row_labels m itos tokens row) = length tokens"
  by (simp add: row_labels_def)

lemma decode_rows_ok:
  assumes "length out + length rows \<le> length sentences"
    and "\<forall>row\<in>set rows. \<forall>p\<in>set row. p < length itos"
  shows "decode_rows itos sentences rows out =
           Inr (out @ map2 (\<lambda>tokens row. map ((!) itos) (take (length tokens) (tl row)))
                        (drop (length out) sentences) rows)"
  using assms
proof (induction rows arbitrary: out)
  case Nil
  then show ?case by simp
next
  case (Cons row rows)
  let ?tokens = "sentences ! length out"
  let ?labels = "map ((!) itos) (take (length ?tokens) (tl row))"
  have lt: "length out < length sentences"
    using Cons.prems(1) by simp
  have "set (take (length ?tokens) (tl row)) \<subseteq> set row"
    by (cases row) (auto dest: in_set_takeD)
  then have "\<forall>p\<in>set (take (length ?tokens) (tl row)). p < length itos"
    using Cons.prems(2) by auto
  then have "traverse (itos_at itos) (take (length ?tokens) (tl row)) = Inr ?labels"
    by (intro traverse_map) (simp add: itos_at_def)
  moreover have "map snd (zip ?tokens (tl row)) = take (length ?tokens) (tl row)"
    by (simp add: map_snd_zip_take min_def)
  moreover have "decode_rows itos sentences rows (out @ [?labels]) =
      Inr ((out @ [?labels]) @ map2 (\<lambda>tokens row. map ((!) itos) (take (length tokens) (tl row)))
                        (drop (length (out @ [?labels])) sentences) rows)"
    using Cons.prems by (intro Cons.IH) simp_all
  moreover have "drop (length out) sentences = ?tokens # drop (Suc (length out)) sentences"
    using lt by (simp add: Cons_nth_drop_Suc)
  ultimately show ?case
    using lt by simp
qed

lemma decode_predicted:
  assumes "length out + length X \<le> length sentences"
    and "model_shapes m" and "0 < n_labels m" and "n_labels m \<le> length itos"
  shows "decode_rows itos sentences (predicted_ids m X) out =
           Inr (out @ map2 (row_labels m itos) (drop (length out) sentences) X)"
proof -
  have "label_id m w < length itos" for w
    using label_id_argmax(2) [OF assms(2,3), of w] assms(4) by simp
  then have "\<forall>row\<in>set (predicted_ids m X). \<forall>p\<in>set row. p < length itos"
    by (auto simp: predicted_ids_def)
  then have "decode_rows itos sentences (predicted_ids m X) out =
           Inr (out @ map2 (\<lambda>tokens row. map ((!) itos) (take (length tokens) (tl row)))
                        (drop (length out) sentences) (predicted_ids m X))"
    using assms(1) by (intro decode_rows_ok) (simp_all add: predicted_ids_def)
  moreover have "map2 (\<lambda>tokens row. map ((!) itos) (take (length tokens) (tl row))) ss
                   (predicted_ids m X) = map2 (row_labels m itos) ss X" for ss
    by (simp add: predicted_ids_def row_labels_def zip_map2 map_tl [symmetric] take_map
          comp_def case_prod_unfold)
  ultimately show ?thesis by simp
qed

lemma zip_take_length: "zip (take (length ys) xs) ys = zip xs ys"
  by (induction xs ys rule: list_induct2') simp_all

lemma predict_loop_ok:
  assumes "model_shapes m" and "0 < n_labels m" and "n_labels m \<le> length itos"
    and "\<forall>b\<in>set loader. ids_in_table m (fst b)"
    and "length out + length (concat (map fst loader)) \<le> length sentences"
  shows "predict_loop m itos sentences loader out =
           Inr (out @ map2 (row_labels m itos) (drop (length out) sentences)
                        (concat (map fst loader)))"
  using assms(4,5)
proof (induction loader arbitrary: out)
  case Nil
  then show ?case by simp
next
  case (Cons b loader)
  obtain X Y C where b: "b = (X, Y, C)" by (cases b)
  let ?out' = "out @ map2 (row_labels m itos) (drop (length out) sentences) X"
  have X: "ids_in_table m X" "length out + length X \<le> length sentences"
    using Cons.prems by (simp_all add: b)
  have fw: "bindE (forward m X) argmax_dim2 = Inr (predicted_ids m X)"
    by (rule predicted_in_table [OF assms(1,2) X(1)])
  have dec: "decode_rows itos sentences (predicted_ids m X) out = Inr ?out'"
    by (rule decode_predicted [OF X(2) assms(1,2,3)])
  have len: "length ?out' = length out + length X"
    using X(2) by simp
  have "predict_loop m itos sentences loader ?out' =
          Inr (?out' @ map2 (row_labels m itos) (drop (length ?out') sentences)
                         (concat (map fst loader)))"
    using Cons.prems by (intro Cons.IH) (simp_all add: len b)
  moreover have "predict_loop m itos sentences (b # loader) out =
          predict_loop m itos sentences loader ?out'"
    using fw dec by (auto simp: b bindE_Inr)
  moreover have "zip (drop (length out) sentences) (X @ concat (map fst loader)) =
      zip (drop (length out) sentences) X @
      zip (drop (length out + length X) sentences) (concat (map fst loader))"
    using X(2) by (simp add: zip_append2 zip_take_length add.commute)
  moreover have "min (length sentences - length out) (length X) = length X"
    using X(2) by simp
  ultimately show ?case
    by (simp add: b)
qed

lemma eval_mode_simps [simp]:
  "word_scores (m\<lparr>training := b\<rparr>) = word_scores m"
  "label_id (m\<lparr>training := b\<rparr>) = label_id m"
  "model_shapes (m\<lparr>training := b\<rparr>) = model_shapes m"
  "n_labels (m\<lparr>training := b\<rparr>) = n_labels m"
  "ids_in_table (m\<lparr>training := b\<rparr>) = ids_in_table m"
  "row_labels (m\<lparr>training := b\<rparr>) = row_labels m"
  "parameters (m\<lparr>training := b\<rparr>) = parameters m"
  by (simp_all add: fun_eq_iff word_scores_def label_id_def model_shapes_def n_labels_def
        ids_in_table_def row_labels_def top_layer_def parameters_def)

lemma set_batches_of: "its \<in> set (batches_of n xs) \<Longrightarrow> set its \<subseteq> set xs"
  by (auto simp: batches_of_def dest!: in_set_takeD in_set_dropD)

lemma Ydummy_nonempty:
  "itos \<noteq> [] \<Longrightarrow> Ydummy itos sentences = Inr (map (\<lambda>sen. replicate (length sen) (hd itos)) sentences)"
  unfolding Ydummy_def by (rule traverse_map) (simp split: list.splits)

text \<open>The rows of a loader over a batcher with a leading pad slot, example by example.\<close>

lemma loader_rows:
  assumes "leading_pad_slot collate" and "0 < bs"
  shows "list_all2 (\<lambda>it row. length (fst it) < length row) dataset
           (concat (map fst (map collate (batches_of bs dataset))))"
proof -
  have one: "list_all2 (\<lambda>it row. length (fst it) < length row) its (fst (collate its))" for its
    using assms(1) by (simp add: leading_pad_slot_def list_all2_conv_all_nth)
  have "list_all2 (list_all2 (\<lambda>it row. length (fst it) < length row))
          (batches_of bs dataset) (map (\<lambda>its. fst (collate its)) (batches_of bs dataset))"
    by (simp add: list_all2_map2 list_all2_same one)
  from list_all2_concat [OF this] show ?thesis
    by (simp add: concat_batches_of [OF assms(2)] comp_def)
qed

text \<open>
  Claim C1.  Let the batch size be positive, the label vocabulary non-empty
  and large enough for the network's labels, the three encodings succeed with
  one sequence per sentence (the word encoding with one id per token, inside
  the embedding table), and let the batcher give every example a row with a
  leading pad slot.  Then \<open>predict\<close> returns a list with one label sequence
  per input sentence, the \<open>k\<close>-th sequence has as many labels as the \<open>k\<close>-th
  sentence has tokens, and it is read off the \<open>k\<close>-th row of the batches
  (positions \<open>1, 2, ...\<close> of that row), so the sequences stand in input order.
\<close>

theorem predict_one_sequence_per_sentence:
  assumes bs: "0 < batch_size self"
    and itos: "label_voc_itos self \<noteq> []"
    and W: "word_voc_encode self sentences = Inr W" "map length W = map length sentences"
      "ids_in_table (model self) W"
    and L: "label_voc_encode self
              (map (\<lambda>sen. replicate (length sen) (hd (label_voc_itos self))) sentences) = Inr L"
      "length L = length sentences"
    and C: "char_voc_encode self sentences = Inr C" "length C = length sentences"
    and slot: "leading_pad_slot (batcher self)"
    and table: "rows_in_table (batcher self) (length (word_embedding (model self)))"
    and m: "model_shapes (model self)" "0 < n_labels (model self)"
      "n_labels (model self) \<le> length (label_voc_itos self)"
  shows "\<exists>loader out. predict_loader self sentences = Inr loader \<and>
           snd (predict self sentences) = Inr out \<and>
           length out = length sentences \<and>
           (\<forall>k<length sentences. length (out ! k) = length (sentences ! k)) \<and>
           out = map2 (row_labels (model self) (label_voc_itos self)) sentences
                   (concat (map fst loader))"
proof -
  define dataset :: "item list"
    where "dataset = map (\<lambda>i. (W ! i, L ! i, Some (C ! i))) [0..<length W]"
  define loader where "loader = map (batcher self) (batches_of (batch_size self) dataset)"
  define rows where "rows = concat (map fst loader)"
  let ?m = "model self" and ?itos = "label_voc_itos self"
  have lenW: "length W = length sentences"
    using W(2) by (rule map_eq_imp_length_eq)
  have tokens: "length (W ! k) = length (sentences ! k)" if "k < length sentences" for k
    using W(2) that lenW by (metis nth_map)
  have ds: "SequenceDataset W L (Some C) = Inr dataset"
    by (simp add: SequenceDataset_def dataset_def lenW L(2) C(2))
  have loader: "predict_loader self sentences = Inr loader"
    using bs by (simp add: predict_loader_def Ydummy_nonempty [OF itos] W(1) L(1) C(1) ds
        sequential_loader_def loader_def)
  have all2: "list_all2 (\<lambda>it row. length (fst it) < length row) dataset rows"
    unfolding rows_def loader_def by (rule loader_rows [OF slot bs])
  then have lenrows: "length rows = length sentences"
    by (simp add: list_all2_lengthD [symmetric] dataset_def lenW)
  have longer: "length (sentences ! k) < length (rows ! k)" if "k < length sentences" for k
    using list_all2_nthD [OF all2, of k] that tokens [OF that] by (simp add: dataset_def lenW)
  have in_table: "ids_in_table ?m (fst b)" if "b \<in> set loader" for b
  proof -
    from that obtain its where its: "its \<in> set (batches_of (batch_size self) dataset)"
      and b: "b = batcher self its"
      by (auto simp: loader_def)
    have "\<forall>it\<in>set its. \<forall>w\<in>set (fst it). w < length (word_embedding ?m)"
      using set_batches_of [OF its] W(3) by (fastforce simp: dataset_def ids_in_table_def)
    with table show ?thesis
      by (simp add: rows_in_table_def ids_in_table_def b)
  qed
  define out where "out = map2 (row_labels ?m ?itos) sentences rows"
  have "predict_loop (?m\<lparr>training := False\<rparr>) ?itos sentences loader [] = Inr out"
    using predict_loop_ok [of "?m\<lparr>training := False\<rparr>" ?itos loader "[]" sentences]
      m in_table lenrows by (simp add: out_def rows_def)
  then have res: "snd (predict self sentences) = Inr out"
    by (simp add: predict_def loader)
  have "length (out ! k) = length (sentences ! k)" if "k < length sentences" for k
    using that lenrows longer [OF that] by (simp add: out_def length_row_labels)
  then show ?thesis
    using loader res lenrows by (auto simp: out_def rows_def)
qed

lemma SequenceBatcher_leading_pad_slot: "0 < lead \<Longrightarrow> leading_pad_slot (SequenceBatcher lead)"
  by (simp add: leading_pad_slot_def SequenceBatcher_def Let_def pad_row_def)

lemma SequenceBatcher_rows_in_table: "0 < n \<Longrightarrow> rows_in_table (SequenceBatcher lead) n"
  by (auto simp: rows_in_table_def SequenceBatcher_def Let_def pad_row_def)

theorem predict_one_sequence_per_sentence_witness:
  "0 < batch_size (example_labeler 1) \<and>
   leading_pad_slot (batcher (example_labeler 1)) \<and>
   (\<exists>out. snd (predict (example_labeler 1) example_sentences) = Inr out \<and>
      length out = 3 \<and> length (out ! 0) = 2 \<and> length (out ! 1) = 1 \<and> length (out ! 2) = 1) \<and>
   snd (predict (example_labeler 1) example_sentences) = Inr [[''B-PER'', ''O''], [''O''], [''O'']]"
proof -
  let ?s = "example_labeler 1"
  have bs: "0 < batch_size ?s"
    by (simp add: example_labeler_def)
  have itos: "label_voc_itos ?s \<noteq> []"
    by (simp add: example_labeler_def)
  have W: "word_voc_encode ?s example_sentences = Inr [[2, 3], [1], [3]]"
    by code_simp
  have W2: "map length [[2, 3], [1], [3::nat]] = map length example_sentences"
    by (simp add: example_sentences_def)
  have W3: "ids_in_table (model ?s) [[2, 3], [1], [3]]"
    by (simp add: ids_in_table_def example_labeler_def example_model_def)
  have L: "label_voc_encode ?s
             (map (\<lambda>sen. replicate (length sen) (hd (label_voc_itos ?s))) example_sentences)
           = Inr [[0, 0], [0], [0]]"
    by code_simp
  have L2: "length [[0, 0], [0], [0::nat]] = length example_sentences"
    by (simp add: example_sentences_def)
  have C: "char_voc_encode ?s example_sentences
           = Inr [[[1, 2, 1, 3], [1, 1, 1, 3, 1]], [[1, 2, 1, 2, 1, 2, 1, 1, 1]], [[1, 1, 1, 3, 1]]]"
    by code_simp
  have C2: "length [[[1, 2, 1, 3], [1, 1, 1, 3, 1]], [[1, 2, 1, 2, 1, 2, 1, 1, 1]],
              [[1, 1, 1, 3, 1::nat]]] = length example_sentences"
    by (simp add: example_sentences_def)
  have slot: "leading_pad_slot (batcher ?s)"
    by (simp add: example_labeler_def SequenceBatcher_leading_pad_slot)
  have table: "rows_in_table (batcher ?s) (length (word_embedding (model ?s)))"
    by (simp add: example_labeler_def example_model_def SequenceBatcher_rows_in_table)
  have m: "model_shapes (model ?s)" "0 < n_labels (model ?s)"
    "n_labels (model ?s) \<le> length (label_voc_itos ?s)"
    by (simp_all add: example_labeler_def example_model_def model_shapes_def n_labels_def)
  from predict_one_sequence_per_sentence [OF bs itos W W2 W3 L L2 C C2 slot table m]
  obtain out where out: "snd (predict ?s example_sentences) = Inr out"
    "length out = length example_sentences"
    "\<forall>k<length example_sentences. length (out ! k) = length (example_sentences ! k)"
    by blast
  have "length out = 3" "length (out ! 0) = 2" "length (out ! 1) = 1" "length (out ! 2) = 1"
    using out(2,3) by (simp_all add: example_sentences_def)
  moreover have "snd (predict ?s example_sentences) = Inr [[''B-PER'', ''O''], [''O''], [''O'']]"
    by code_simp
  ultimately show ?thesis
    using bs slot out(1) by blast
qed

text \<open>
  Without the leading pad slot the same call loses labels: the first sentence
  has two tokens and gets one label, the last has one token and gets none.
\<close>

lemma predict_without_leading_pad_slot:
  "snd (predict (example_labeler 0) example_sentences) = Inr [[''O''], [''O''], []]"
  by code_simp

lemma predict_loop_words_only:
  "map fst loader = map fst loader' \<Longrightarrow>
   predict_loop m itos sentences loader out = predict_loop m itos sentences loader' out"
proof (induction loader arbitrary: loader' out)
  case Nil
  then show ?case by simp
next
  case (Cons b loader)
  then obtain b' rest where l': "loader' = b' # rest" and b': "fst b' = fst b"
    and rest: "map fst loader = map fst rest"
    by (cases loader') auto
  obtain X Y C where b: "b = (X, Y, C)" by (cases b)
  obtain Y' C' where b'': "b' = (X, Y', C')" using b' b by (cases b') auto
  have "predict_loop m itos sentences loader = predict_loop m itos sentences rest"
    by (rule ext) (rule Cons.IH [OF rest])
  then show ?case
    by (simp add: l' b b'')
qed

text \<open>
  Claim C10.  The loop of \<open>predict\<close> reads the word tensor of every batch and
  nothing else of it: two loaders whose batches hold the same word tensors,
  whatever their label tensors (the placeholder labels) and character tensors
  are, give the same result, label sequence for label sequence and error for
  error.
\<close>

theorem predict_ignores_labels_and_characters:
  assumes "map fst loader = map fst loader'"
  shows "predict_loop m itos sentences loader [] = predict_loop m itos sentences loader' []"
  using assms by (rule predict_loop_words_only)

theorem predict_ignores_labels_and_characters_witness:
  "map fst example_loader = map fst example_loader_relabelled \<and>
   predict_loop example_model [''<pad>'', ''O'', ''B-PER''] [[''Jane'', ''lives''], [''Tarakanov'']]
     example_loader []
     = predict_loop example_model [''<pad>'', ''O'', ''B-PER''] [[''Jane'', ''lives''], [''Tarakanov'']]
         example_loader_relabelled [] \<and>
   predict_loop example_model [''<pad>'', ''O'', ''B-PER''] [[''Jane'', ''lives''], [''Tarakanov'']]
     example_loader_relabelled []
     = Inr [[''B-PER'', ''O''], [''O'']]"
proof -
  have same: "map fst example_loader = map fst example_loader_relabelled"
    by (simp add: example_loader_def example_loader_relabelled_def)
  have "predict_loop example_model [''<pad>'', ''O'', ''B-PER''] [[''Jane'', ''lives''], [''Tarakanov'']]
     example_loader_relabelled []
     = Inr [[''B-PER'', ''O''], [''O'']]"
    by code_simp
  with same predict_ignores_labels_and_characters [OF same, of example_model
      "[''<pad>'', ''O'', ''B-PER'']" "[[''Jane'', ''lives''], [''Tarakanov'']]"]
  show ?thesis by blast
qed

text \<open>
  The same for two whole calls of \<open>predict\<close> on labelers that differ only in
  how they encode the placeholder labels and the characters, when the batcher
  builds its word tensor from the word sequences alone.
\<close>

lemma batches_of_map: "batches_of n (map f xs) = map (map f) (batches_of n xs)"
  by (simp add: batches_of_def take_map drop_map)

lemma map_eq_via:
  assumes "map f xs = map f ys" and "\<And>x y. f x = f y \<Longrightarrow> g x = g y"
  shows "map g xs = map g ys"
  using assms(1)
proof (induction xs arbitrary: ys)
  case Nil
  then show ?case by simp
next
  case (Cons x xs)
  then obtain y ys' where "ys = y # ys'" "f x = f y" "map f xs = map f ys'"
    by (cases ys) auto
  then show ?case
    using Cons.IH [of ys'] assms(2) [of x y] by simp
qed

lemma predict_ignores_encodings:
  assumes words: "\<forall>its its'. map fst its = map fst its' \<longrightarrow>
                    fst (batcher self its) = fst (batcher self its')"
    and self': "self' = self\<lparr>label_voc_encode := le, char_voc_encode := ce\<rparr>"
    and ok: "predict_loader self sentences = Inr loader" "predict_loader self' sentences = Inr loader'"
  shows "snd (predict self sentences) = snd (predict self' sentences)"
proof -
  from ok(1) obtain W L C ds where W: "word_voc_encode self sentences = Inr W"
    and ds: "SequenceDataset W L (Some C) = Inr ds"
    and l: "sequential_loader ds (batch_size self) (batcher self) = Inr loader"
    by (auto simp: predict_loader_def bindE_Inr)
  from ok(2) W obtain L' C' ds' where ds': "SequenceDataset W L' (Some C') = Inr ds'"
    and l': "sequential_loader ds' (batch_size self) (batcher self) = Inr loader'"
    by (auto simp: predict_loader_def bindE_Inr self')
  have "map fst ds = map fst ds'"
    using ds ds' by (auto simp: SequenceDataset_def split: if_splits)
  then have "map (map fst) (batches_of (batch_size self) ds)
               = map (map fst) (batches_of (batch_size self) ds')"
    by (simp add: batches_of_map [symmetric])
  then have "map (\<lambda>its. fst (batcher self its)) (batches_of (batch_size self) ds)
               = map (\<lambda>its. fst (batcher self its)) (batches_of (batch_size self) ds')"
    by (rule map_eq_via) (use words in blast)
  moreover have "loader = map (batcher self) (batches_of (batch_size self) ds)"
    "loader' = map (batcher self) (batches_of (batch_size self) ds')"
    using l l' by (simp_all add: sequential_loader_def split: if_splits)
  ultimately have same: "map fst loader = map fst loader'"
    by (simp add: comp_def)
  have "predict self sentences
          = (self\<lparr>model := (model self)\<lparr>training := False\<rparr>\<rparr>,
             predict_loop ((model self)\<lparr>training := False\<rparr>) (label_voc_itos self) sentences loader [])"
    "predict self' sentences
          = (self'\<lparr>model := (model self)\<lparr>training := False\<rparr>\<rparr>,
             predict_loop ((model self)\<lparr>training := False\<rparr>) (label_voc_itos self) sentences loader' [])"
    using ok by (simp_all add: predict_def self')
  then show ?thesis
    by (simp add: predict_loop_words_only [OF same])
qed

section \<open>Properties of train\<close>

lemma forward_Inr_D:
  assumes "forward m X = Inr scores"
  shows "ids_in_table m X"
proof -
  from assms obtain wr where "traverse (traverse (embedding (word_embedding m))) X = Inr wr"
    by (auto simp: forward_def bindE_Inr)
  then have "\<forall>i<length X. traverse (embedding (word_embedding m)) (X ! i) = Inr (wr ! i)"
    by (simp add: traverse_Inr_iff)
  then have "\<forall>i<length X. \<forall>j<length (X ! i).
               embedding (word_embedding m) (X ! i ! j) = Inr (wr ! i ! j)"
    by (simp add: traverse_Inr_iff)
  then have "\<forall>i<length X. \<forall>j<length (X ! i). X ! i ! j < length (word_embedding m)"
    by (auto simp: embedding_def split: if_splits)
  then show ?thesis
    by (auto simp: ids_in_table_def in_set_conv_nth)
qed

lemma traverse_argmax_label_id:
  "traverse argmax (map (word_scores m) row) = Inr ps \<Longrightarrow> ps = map (label_id m) row"
proof (induction row arbitrary: ps)
  case Nil
  then show ?case by simp
next
  case (Cons w row)
  then obtain k ps' where "argmax (word_scores m w) = Inr k"
    "traverse argmax (map (word_scores m) row) = Inr ps'" "ps = k # ps'"
    by (auto simp: bindE_Inr)
  then show ?case
    using Cons.IH [of ps'] by (simp add: label_id_def)
qed

lemma predicted_Inr_D:
  assumes "forward m X = Inr scores" and "argmax_dim2 scores = Inr predicted"
  shows "predicted = predicted_ids m X"
proof -
  have scores: "scores = map (map (word_scores m)) X"
    using forward_in_table [OF forward_Inr_D [OF assms(1)]] assms(1) by simp
  have "traverse (traverse argmax) (map (map (word_scores m)) rows) = Inr ps
          \<Longrightarrow> ps = map (map (label_id m)) rows" for rows ps
  proof (induction rows arbitrary: ps)
    case Nil
    then show ?case by simp
  next
    case (Cons row rows)
    then obtain p ps' where "traverse argmax (map (word_scores m) row) = Inr p"
      "traverse (traverse argmax) (map (map (word_scores m)) rows) = Inr ps'" "ps = p # ps'"
      by (auto simp: bindE_Inr)
    then show ?case
      using Cons.IH [of ps'] traverse_argmax_label_id [of m row p] by simp
  qed
  then show ?thesis
    using assms(2) by (simp add: scores argmax_dim2_def predicted_ids_def)
qed

lemma fetch_items_length:
  "fetch_items getitem g dataset idxs = Inr (its, g') \<Longrightarrow> length its = length idxs"
proof (induction idxs arbitrary: g its g')
  case Nil
  then show ?case by simp
next
  case (Cons i idxs)
  then show ?case
    by (auto simp: bindE_Inr split: if_splits prod.splits)
qed







lemma len_loader_pos: "bs \<noteq> 0 \<Longrightarrow> dataset \<noteq> [] \<Longrightarrow> 0 < len_loader dataset bs"
proof -
  assume "bs \<noteq> 0" "dataset \<noteq> []"
  then have "bs \<le> length dataset + bs - 1"
    by (cases dataset) simp_all
  then have "bs div bs \<le> (length dataset + bs - 1) div bs"
    by (rule div_le_mono)
  with \<open>bs \<noteq> 0\<close> show ?thesis
    by (simp add: len_loader_def)
qed


lemma validation_batches_Inr:
  "validation_batches lib m (sts, lg) val_loader = Inr (sts', lg')
     \<Longrightarrow> lg' = lg @ validation_events m val_loader \<and>
         sts' = fold (\<lambda>b. evaluate_iob lib (fst b) (predicted_ids m (fst b)) (fst (snd b)))
                  val_loader sts"
proof (induction val_loader arbitrary: sts lg)
  case Nil
  then show ?case by (simp add: validation_events_def)
next
  case (Cons b val_loader)
  obtain X Y C where b: "b = (X, Y, C)" by (cases b)
  from Cons.prems obtain scores predicted where fw: "forward m X = Inr scores"
    and am: "argmax_dim2 scores = Inr predicted"
    and rest: "validation_batches lib m (evaluate_iob lib X predicted Y sts,
                 lg @ [Evaluated X predicted]) val_loader = Inr (sts', lg')"
    by (auto simp: b bindE_Inr)
  have "predicted = predicted_ids m X"
    by (rule predicted_Inr_D [OF fw am])
  with Cons.IH [OF rest] show ?case
    by (simp add: b validation_events_def)
qed

lemma predicted_ids_mode [simp]:
  "predicted_ids (m\<lparr>training := b\<rparr>) = predicted_ids m"
  "validation_events (m\<lparr>training := b\<rparr>) = validation_events m"
  "validation_stats lib (m\<lparr>training := b\<rparr>) = validation_stats lib m"
  by (simp_all add: fun_eq_iff predicted_ids_def validation_events_def validation_stats_def)


text \<open>What the description of an epoch says about the trace and the histories.\<close>

lemma kinds_of_steps [simp]:
  "map (kind_of \<circ> (\<lambda>b. OptimizerStep (fst b))) train_loader = replicate (length train_loader) Step"
  by (induction train_loader) simp_all

lemma kinds_of_validation [simp]:
  "map kind_of (validation_events m val_loader) = replicate (length val_loader) Eval"
  by (induction val_loader) (simp_all add: validation_events_def)

lemma words_of_steps [simp]:
  "concat (map (evaluated_words \<circ> (\<lambda>b. OptimizerStep (fst b))) train_loader) = []"
  by (induction train_loader) simp_all

lemma words_of_validation [simp]:
  "concat (map evaluated_words (validation_events m val_loader)) = map fst val_loader"
  by (induction val_loader) (simp_all add: validation_events_def)

lemma reported_of_steps [simp]:
  "concat (map (reported \<circ> (\<lambda>b. OptimizerStep (fst b))) train_loader) = []"
  by (induction train_loader) simp_all

lemma reported_of_validation [simp]:
  "concat (map reported (validation_events m val_loader)) = []"
  by (induction val_loader) (simp_all add: validation_events_def)






text \<open>An empty training set is refused when the training loader is built, before any epoch.\<close>

lemma train_empty_training_set:
  "train lib n_epochs bs collate [] val_dataset m0 opt0 g0 = Inl ValueError"
  by (simp add: train_def random_loader_def)

section \<open>The validation phase and predict leave the parameters alone\<close>

lemma validation_pass_no_step:
  assumes "snd (validation_pass lib m val_loader) = Inr (sts, lg)"
  shows "Step \<notin> set (map kind_of lg)"
proof -
  from assms have "validation_batches lib (m\<lparr>training := False\<rparr>) (new_stats lib, []) val_loader
                     = Inr (sts, lg)"
    by (simp add: validation_pass_def Let_def)
  from validation_batches_Inr [OF this] have "lg = validation_events m val_loader"
    by simp
  then show ?thesis
    by simp
qed

text \<open>
  Claim C5, for the validation phase of \<open>train\<close> and for \<open>predict\<close>: the
  network that either leaves behind has the parameter tensors it was given,
  whether the call returns or raises (only the mode flag is set), and the
  trace of a validation phase holds no optimizer update.
\<close>

theorem validation_and_predict_keep_parameters:
  "parameters (fst (validation_pass lib m val_loader)) = parameters m \<and>
   (case snd (validation_pass lib m val_loader) of
      Inl e \<Rightarrow> True
    | Inr (sts, lg) \<Rightarrow> Step \<notin> set (map kind_of lg)) \<and>
   parameters (model (fst (predict self sentences))) = parameters (model self)"
proof (intro conjI)
  show "parameters (fst (validation_pass lib m val_loader)) = parameters m"
    by (simp add: validation_pass_def Let_def)
  show "case snd (validation_pass lib m val_loader) of
          Inl e \<Rightarrow> True
        | Inr (sts, lg) \<Rightarrow> Step \<notin> set (map kind_of lg)"
    using validation_pass_no_step [of lib m val_loader]
    by (cases "snd (validation_pass lib m val_loader)") auto
  show "parameters (model (fst (predict self sentences))) = parameters (model self)"
    by (simp add: predict_def Let_def split: sum.splits)
qed

theorem validation_and_predict_keep_parameters_witness:
  "parameters (model (fst (predict (example_labeler 1) example_sentences)))
     = ([[0, 0], [1, 0], [0, 2], [1, 1]], [[0, 0], [1, 0], [0, 1]], [0, 1, 0]) \<and>
   training (model (fst (predict (example_labeler 1) example_sentences))) = False \<and>
   parameters (fst (validation_pass example_library example_network
                      (map (SequenceBatcher 1) (batches_of 2 example_val_dataset))))
     = ([[0, 0], [1, 0], [0, 2], [1, 1]], [[0, 0], [1, 0], [0, 1]], [0, 1, 0]) \<and>
   snd (validation_pass example_library example_network
          (map (SequenceBatcher 1) (batches_of 2 example_val_dataset)))
     = Inr (2, [Evaluated [[0, 2, 0], [0, 3, 3]] [[1, 2, 1], [1, 1, 1]]])"
proof (intro conjI)
  have "parameters (model (fst (predict (example_labeler 1) example_sentences)))
          = parameters (model (example_labeler 1))"
    by (rule validation_and_predict_keep_parameters [THEN conjunct2, THEN conjunct2])
  also have "\<dots> = ([[0, 0], [1, 0], [0, 2], [1, 1]], [[0, 0], [1, 0], [0, 1]], [0, 1, 0])"
    by (simp add: parameters_def example_labeler_def example_model_def)
  finally show "parameters (model (fst (predict (example_labeler 1) example_sentences)))
     = ([[0, 0], [1, 0], [0, 2], [1, 1]], [[0, 0], [1, 0], [0, 1]], [0, 1, 0])" .
  show "training (model (fst (predict (example_labeler 1) example_sentences))) = False"
    by code_simp
  have "parameters (fst (validation_pass example_library example_network
                      (map (SequenceBatcher 1) (batches_of 2 example_val_dataset))))
          = parameters example_network"
    by (rule validation_and_predict_keep_parameters [THEN conjunct1])
  also have "\<dots> = ([[0, 0], [1, 0], [0, 2], [1, 1]], [[0, 0], [1, 0], [0, 1]], [0, 1, 0])"
    by (simp add: parameters_def example_network_def)
  finally show "parameters (fst (validation_pass example_library example_network
                      (map (SequenceBatcher 1) (batches_of 2 example_val_dataset))))
     = ([[0, 0], [1, 0], [0, 2], [1, 1]], [[0, 0], [1, 0], [0, 1]], [0, 1, 0])" .
  show "snd (validation_pass example_library example_network
          (map (SequenceBatcher 1) (batches_of 2 example_val_dataset)))
     = Inr (2, [Evaluated [[0, 2, 0], [0, 3, 3]] [[1, 2, 1], [1, 1, 1]]])"
    by code_simp
qed

section \<open>Properties of the BIO chunk evaluator\<close>

lemma add_simps [simp]:
  "tp (add_tp k st T) = (if T = k then Suc (tp (st T)) else tp (st T))"
  "fp (add_tp k st T) = fp (st T)"
  "fn (add_tp k st T) = fn (st T)"
  "tp (add_fp k st T) = tp (st T)"
  "fp (add_fp k st T) = (if T = k then Suc (fp (st T)) else fp (st T))"
  "fn (add_fp k st T) = fn (st T)"
  "tp (add_fn k st T) = tp (st T)"
  "fp (add_fn k st T) = fp (st T)"
  "fn (add_fn k st T) = (if T = k then Suc (fn (st T)) else fn (st T))"
  by (simp_all add: add_tp_def add_fp_def add_fn_def)

lemma count_predicted_type:
  assumes "T \<noteq> ''total''"
  shows "tp (count_predicted gold cs st T) =
           tp (st T) + length [c \<leftarrow> cs. c \<in> set gold \<and> chunk_type c = T]"
    and "fp (count_predicted gold cs st T) =
           fp (st T) + length [c \<leftarrow> cs. c \<notin> set gold \<and> chunk_type c = T]"
    and "fn (count_predicted gold cs st T) = fn (st T)"
  using assms by (induction cs arbitrary: st) auto

lemma count_missed_type:
  assumes "T \<noteq> ''total''"
  shows "tp (count_missed predicted cs st T) = tp (st T)"
    and "fp (count_missed predicted cs st T) = fp (st T)"
    and "fn (count_missed predicted cs st T) =
           fn (st T) + length [c \<leftarrow> cs. c \<notin> set predicted \<and> chunk_type c = T]"
  using assms by (induction cs arbitrary: st) auto

lemma extract_chunks_floor:
  "chunk_floor i cur \<le> i \<Longrightarrow> c \<in> set (extract_chunks i cur ls) \<Longrightarrow> chunk_floor i cur \<le> fst c"
proof (induction i cur ls rule: extract_chunks.induct)
  case (1 i cur)
  then show ?case
    by (auto simp: close_chunk_def chunk_floor_def split: option.splits)
next
  case (2 i cur ls)
  then show ?case
    by (fastforce simp: close_chunk_def chunk_floor_def split: option.splits)
next
  case (3 i cur t ls)
  then show ?case
    by (fastforce simp: close_chunk_def chunk_floor_def split: option.splits)
next
  case (4 i cur t ls)
  then show ?case
    by (fastforce simp: close_chunk_def chunk_floor_def split: option.splits if_splits)
qed

text \<open>The chunks of a scan start at strictly increasing positions, so no chunk is listed twice.\<close>

lemma close_then_extract:
  assumes "cur \<noteq> None \<longrightarrow> chunk_floor i cur < i" and "i \<le> chunk_floor j cur'" and "chunk_floor j cur' \<le> j"
    and "sorted_wrt (\<lambda>a b. fst a < fst b) (extract_chunks j cur' ls)"
  shows "sorted_wrt (\<lambda>a b. fst a < fst b) (close_chunk cur i @ extract_chunks j cur' ls)"
proof (cases cur)
  case None
  then show ?thesis
    using assms(4) by (simp add: close_chunk_def)
next
  case (Some st)
  obtain s t where st: "st = (s, t)" by (cases st)
  have "s < i"
    using assms(1) by (simp add: Some st chunk_floor_def)
  moreover have "chunk_floor j cur' \<le> fst c" if "c \<in> set (extract_chunks j cur' ls)" for c
    using extract_chunks_floor [OF assms(3) that] .
  ultimately have "\<forall>c\<in>set (extract_chunks j cur' ls). s < fst c"
    using assms(2) by fastforce
  then show ?thesis
    using assms(4) by (simp add: Some st close_chunk_def)
qed

lemma extract_chunks_increasing:
  "cur \<noteq> None \<longrightarrow> chunk_floor i cur < i
     \<Longrightarrow> sorted_wrt (\<lambda>a b. fst a < fst b) (extract_chunks i cur ls)"
proof (induction ls arbitrary: i cur)
  case Nil
  then show ?case
    by (simp add: close_chunk_def split: option.splits)
next
  case (Cons l ls)
  show ?case
  proof (cases l)
    case Outside
    have "sorted_wrt (\<lambda>a b. fst a < fst b) (close_chunk cur i @ extract_chunks (Suc i) None ls)"
      using Cons.prems by (intro close_then_extract Cons.IH) (simp_all add: chunk_floor_def)
    then show ?thesis
      by (simp add: Outside)
  next
    case (Begin t)
    have "sorted_wrt (\<lambda>a b. fst a < fst b)
            (close_chunk cur i @ extract_chunks (Suc i) (Some (i, t)) ls)"
      using Cons.prems by (intro close_then_extract Cons.IH) (simp_all add: chunk_floor_def)
    then show ?thesis
      by (simp add: Begin)
  next
    case (Inside t)
    show ?thesis
    proof (cases "continues cur t")
      case True
      then have "cur \<noteq> None"
        by (cases cur) (auto simp: continues_def)
      then have "sorted_wrt (\<lambda>a b. fst a < fst b) (extract_chunks (Suc i) cur ls)"
        using Cons.prems by (intro Cons.IH) (auto simp: chunk_floor_def)
      then show ?thesis
        by (simp add: Inside True)
    next
      case False
      have "sorted_wrt (\<lambda>a b. fst a < fst b)
              (close_chunk cur i @ extract_chunks (Suc i) (Some (i, t)) ls)"
        using Cons.prems by (intro close_then_extract Cons.IH) (simp_all add: chunk_floor_def)
      then show ?thesis
        by (simp add: Inside False)
    qed
  qed
qed

lemma distinct_chunks: "distinct (chunks ls)"
proof -
  have "sorted_wrt (\<lambda>a b. fst a < fst b) (chunks ls)"
    unfolding chunks_def by (rule extract_chunks_increasing) simp
  then have "sorted_wrt (<) (map fst (chunks ls))"
    by (simp add: sorted_wrt_map)
  then have "distinct (map fst (chunks ls))"
    by (simp add: strict_sorted_iff)
  then show ?thesis
    by (simp add: distinct_map)
qed

lemma length_filter_chunks:
  "length [c \<leftarrow> chunks ls. P c] = card {c \<in> set (chunks ls). P c}"
proof -
  have "{c \<in> set (chunks ls). P c} = {c. P c} \<inter> set (chunks ls)"
    by auto
  then show ?thesis
    by (simp add: distinct_length_filter [OF distinct_chunks])
qed

text \<open>
  Claim C3.  For an entity type \<open>T\<close>, evaluating a predicted against a gold
  label sequence adds to the true positives of \<open>T\<close> the number of chunks of
  type \<open>T\<close> that are both predicted and gold chunks (same start, same end,
  same type), to its false positives the number of predicted chunks of type
  \<open>T\<close> that are not gold chunks, and to its false negatives the number of
  gold chunks of type \<open>T\<close> that were not predicted.  For gold
  \<^verbatim>\<open>[B-PER, I-PER, O]\<close> and predicted \<^verbatim>\<open>[B-PER, O, O]\<close> the counts of \<^verbatim>\<open>PER\<close>
  are TP = 0, FP = 1, FN = 1: the shorter chunk earns nothing.
\<close>

theorem evaluate_bio_exact_match:
  assumes "T \<noteq> ''total''"
  shows "tp (evaluate_bio predicted gold st T) =
           tp (st T) + card {c \<in> set (chunks predicted). c \<in> set (chunks gold) \<and> chunk_type c = T} \<and>
         fp (evaluate_bio predicted gold st T) =
           fp (st T) + card {c \<in> set (chunks predicted). c \<notin> set (chunks gold) \<and> chunk_type c = T} \<and>
         fn (evaluate_bio predicted gold st T) =
           fn (st T) + card {c \<in> set (chunks gold). c \<notin> set (chunks predicted) \<and> chunk_type c = T} \<and>
         chunks [Begin ''PER'', Inside ''PER'', Outside] = [(0, 2, ''PER'')] \<and>
         chunks [Begin ''PER'', Outside, Outside] = [(0, 1, ''PER'')] \<and>
         evaluate_bio [Begin ''PER'', Outside, Outside] [Begin ''PER'', Inside ''PER'', Outside]
           no_counts ''PER'' = \<lparr>tp = 0, fp = 1, fn = 1\<rparr>"
proof -
  have ex: "chunks [Begin ''PER'', Inside ''PER'', Outside] = [(0, 2, ''PER'')]"
    "chunks [Begin ''PER'', Outside, Outside] = [(0, 1, ''PER'')]"
    by (simp_all add: chunks_def close_chunk_def continues_def)
  have "evaluate_bio [Begin ''PER'', Outside, Outside] [Begin ''PER'', Inside ''PER'', Outside]
           no_counts ''PER'' = \<lparr>tp = 0, fp = 1, fn = 1\<rparr>"
    by (simp add: evaluate_bio_def ex chunk_type_def add_tp_def add_fp_def add_fn_def
          no_counts_def)
  then show ?thesis
    using assms
    by (simp add: evaluate_bio_def count_predicted_type count_missed_type ex
          length_filter_chunks)
qed

theorem evaluate_bio_exact_match_witness:
  "''PER'' \<noteq> ''total'' \<and>
   evaluate_bio [Begin ''PER'', Outside, Outside] [Begin ''PER'', Inside ''PER'', Outside]
     no_counts ''PER'' = \<lparr>tp = 0, fp = 1, fn = 1\<rparr> \<and>
   evaluate_bio [Begin ''PER'', Outside, Begin ''LOC''] [Begin ''PER'', Outside, Begin ''LOC'']
     no_counts ''PER'' = \<lparr>tp = 1, fp = 0, fn = 0\<rparr>"
proof -
  have ne: "''PER'' \<noteq> ''total''"
    by simp
  have c: "chunks [Begin ''PER'', Outside, Begin ''LOC''] = [(0, 1, ''PER''), (2, 3, ''LOC'')]"
    by (simp add: chunks_def close_chunk_def continues_def)
  have "evaluate_bio [Begin ''PER'', Outside, Begin ''LOC''] [Begin ''PER'', Outside, Begin ''LOC'']
          no_counts ''PER'' = \<lparr>tp = 1, fp = 0, fn = 0\<rparr>"
    by (simp add: evaluate_bio_def c chunk_type_def add_tp_def add_fp_def add_fn_def
          no_counts_def)
  moreover have "evaluate_bio [Begin ''PER'', Outside, Outside]
                   [Begin ''PER'', Inside ''PER'', Outside] no_counts ''PER''
                 = \<lparr>tp = 0, fp = 1, fn = 1\<rparr>"
    using evaluate_bio_exact_match [OF ne, of "[]" "[]" no_counts] by simp
  ultimately show ?thesis
    using ne by blast
qed

text \<open>
  Claim C4.  \<open>ner_prf\<close> returns for every counter, it never raises; the
  precision is 0 when \<open>TP + FP = 0\<close> and \<open>TP / (TP + FP)\<close> otherwise, the
  recall is 0 when \<open>TP + FN = 0\<close> and \<open>TP / (TP + FN)\<close> otherwise, F1 is 0
  when precision and recall add up to 0 and their harmonic mean otherwise, and
  with no predicted and no gold chunk all three values are 0.
\<close>

theorem prf_defaults_to_zero:
  "\<exists>p r f1. ner_prf c = Inr (p, r, f1) \<and>
     (tp c + fp c = 0 \<longrightarrow> p = 0) \<and>
     (tp c + fp c \<noteq> 0 \<longrightarrow> p = real (tp c) / real (tp c + fp c)) \<and>
     (tp c + fn c = 0 \<longrightarrow> r = 0) \<and>
     (tp c + fn c \<noteq> 0 \<longrightarrow> r = real (tp c) / real (tp c + fn c)) \<and>
     (p + r = 0 \<longrightarrow> f1 = 0) \<and>
     (p + r \<noteq> 0 \<longrightarrow> f1 = 2 * p * r / (p + r)) \<and>
     (tp c + fp c = 0 \<and> tp c + fn c = 0 \<longrightarrow> p = 0 \<and> r = 0 \<and> f1 = 0)"
  by (simp add: ner_prf_def py_div_def)

theorem prf_defaults_to_zero_witness:
  "ner_prf \<lparr>tp = 0, fp = 0, fn = 0\<rparr> = Inr (0, 0, 0) \<and>
   ner_prf \<lparr>tp = 0, fp = 0, fn = 3\<rparr> = Inr (0, 0, 0) \<and>
   ner_prf \<lparr>tp = 1, fp = 1, fn = 0\<rparr> = Inr (1 / 2, 1, 2 / 3)"
proof -
  have "ner_prf \<lparr>tp = 1, fp = 1, fn = 0\<rparr> = Inr (1 / 2, 1, 2 / 3)"
    "ner_prf \<lparr>tp = 0, fp = 0, fn = 3\<rparr> = Inr (0, 0, 0)"
    by (simp_all add: ner_prf_def py_div_def)
  moreover from prf_defaults_to_zero [of "\<lparr>tp = 0, fp = 0, fn = 0\<rparr>"]
  have "ner_prf \<lparr>tp = 0, fp = 0, fn = 0\<rparr> = Inr (0, 0, 0)"
    by auto
  ultimately show ?thesis
    by blast
qed

section \<open>Chunk extraction and re-serialization\<close>

lemma serialize_outside:
  assumes "i < n" and "\<forall>c\<in>set cs. Suc i \<le> fst c"
  shows "serialize i n cs = Outside # serialize (Suc i) n cs"
proof (cases cs)
  case Nil
  then show ?thesis
    using assms(1) by (simp add: Suc_diff_Suc replicate_Suc [symmetric] del: replicate_Suc)
next
  case (Cons c cs')
  obtain s e t where c: "c = (s, e, t)" by (cases c)
  have "Suc i \<le> s"
    using assms(2) Cons c by simp
  then have "replicate (s - i) Outside = Outside # replicate (s - Suc i) Outside"
    by (simp add: Suc_diff_le replicate_Suc [symmetric] del: replicate_Suc)
  then show ?thesis
    by (simp add: Cons c)
qed

lemma serialize_after_outside:
  "serialize i (Suc (i + length ls)) (extract_chunks (Suc i) None ls)
     = Outside # serialize (Suc i) (Suc (i + length ls)) (extract_chunks (Suc i) None ls)"
proof (rule serialize_outside)
  show "i < Suc (i + length ls)" by simp
  show "\<forall>c\<in>set (extract_chunks (Suc i) None ls). Suc i \<le> fst c"
    using extract_chunks_floor [of "Suc i" None _ ls] by (simp add: chunk_floor_def)
qed

lemma serialize_extract:
  assumes "inside_follows (map_option snd cur) ls" and "cur \<noteq> None \<longrightarrow> chunk_floor i cur < i"
  shows "serialize (chunk_floor i cur) (i + length ls) (extract_chunks i cur ls)
           = open_labels i cur @ ls"
  using assms
proof (induction ls arbitrary: i cur)
  case Nil
  then show ?case
    by (cases cur) (auto simp: close_chunk_def chunk_floor_def open_labels_def)
next
  case (Cons l ls)
  show ?case
  proof (cases l)
    case Outside
    have "serialize (Suc i) (Suc i + length ls) (extract_chunks (Suc i) None ls) = ls"
      using Cons.IH [of None "Suc i"] Cons.prems(1)
      by (simp add: Outside chunk_floor_def open_labels_def)
    then have "serialize i (Suc (i + length ls)) (extract_chunks (Suc i) None ls) = Outside # ls"
      using serialize_after_outside [of i ls] by simp
    then show ?thesis
      by (cases cur) (auto simp: Outside close_chunk_def chunk_floor_def open_labels_def)
  next
    case (Begin t)
    have "serialize i (Suc i + length ls) (extract_chunks (Suc i) (Some (i, t)) ls) = Begin t # ls"
      using Cons.IH [of "Some (i, t)" "Suc i"] Cons.prems(1)
      by (simp add: Begin chunk_floor_def open_labels_def)
    then show ?thesis
      by (cases cur) (auto simp: Begin close_chunk_def chunk_floor_def open_labels_def)
  next
    case (Inside t)
    from Cons.prems(1) obtain s where cur: "cur = Some (s, t)" and rest: "inside_follows (Some t) ls"
      by (cases cur) (auto simp: Inside)
    have s: "s < i"
      using Cons.prems(2) by (simp add: cur chunk_floor_def)
    have "serialize s (Suc i + length ls) (extract_chunks (Suc i) (Some (s, t)) ls)
            = Begin t # replicate (i - s) (Inside t) @ ls"
      using Cons.IH [of "Some (s, t)" "Suc i"] rest s
      by (simp add: chunk_floor_def open_labels_def)
    moreover have "i - s = Suc (i - Suc s)"
      using s by simp
    then have "replicate (i - s) (Inside t) = replicate (i - Suc s) (Inside t) @ [Inside t]"
      by (simp only: replicate_Suc replicate_append_same)
    ultimately show ?thesis
      by (simp add: Inside cur continues_def chunk_floor_def open_labels_def)
  qed
qed

text \<open>
  Claim C9, as stated, fails: the chunk extraction lets an \<^verbatim>\<open>I-TYPE\<close> label that
  follows no label of its type begin a chunk, and the chunk is written back
  with \<^verbatim>\<open>B-TYPE\<close> at its start.
\<close>

theorem roundtrip_counterexample:
  "chunks [Inside ''PER''] = [(0, 1, ''PER'')] \<and>
   to_labels (length [Inside ''PER'']) (chunks [Inside ''PER'']) = [Begin ''PER''] \<and>
   to_labels (length [Inside ''PER'']) (chunks [Inside ''PER'']) \<noteq> [Inside ''PER'']"
  by (simp add: chunks_def to_labels_def close_chunk_def continues_def)

text \<open>
  Claim C9, amended.  For every label sequence in which each \<^verbatim>\<open>I-TYPE\<close> label
  follows a \<^verbatim>\<open>B-TYPE\<close> or \<^verbatim>\<open>I-TYPE\<close> label of the same type, extracting the
  chunks and writing them back over the length of the sequence yields the
  sequence itself.
\<close>

theorem roundtrip_inside_follows:
  assumes "inside_follows None ls"
  shows "to_labels (length ls) (chunks ls) = ls"
  using serialize_extract [of None ls 0] assms
  by (simp add: to_labels_def chunks_def chunk_floor_def open_labels_def)

theorem roundtrip_inside_follows_witness:
  "inside_follows None [Begin ''ORG'', Inside ''ORG'', Outside, Begin ''PER'', Begin ''LOC''] \<and>
   chunks [Begin ''ORG'', Inside ''ORG'', Outside, Begin ''PER'', Begin ''LOC'']
     = [(0, 2, ''ORG''), (3, 4, ''PER''), (4, 5, ''LOC'')] \<and>
   to_labels 5 (chunks [Begin ''ORG'', Inside ''ORG'', Outside, Begin ''PER'', Begin ''LOC''])
     = [Begin ''ORG'', Inside ''ORG'', Outside, Begin ''PER'', Begin ''LOC'']"
proof -
  let ?ls = "[Begin ''ORG'', Inside ''ORG'', Outside, Begin ''PER'', Begin ''LOC'']"
  have wf: "inside_follows None ?ls"
    by simp
  have c: "chunks ?ls = [(0, 2, ''ORG''), (3, 4, ''PER''), (4, 5, ''LOC'')]"
    by (simp add: chunks_def close_chunk_def continues_def)
  have len: "length ?ls = 5"
    by simp
  from roundtrip_inside_follows [OF wf] have "to_labels 5 (chunks ?ls) = ?ls"
    by (simp only: len)
  with wf c show ?thesis
    by blast
qed


end
